theory Spec2Isabelle
  imports Main "HOL-Library.Char_ord" "HOL-Library.Sublist"
begin

section \<open>The FX shader compiler (fxc.c): lexer\<close>

text \<open>
  The compiler reads the whole input file into a buffer and appends a NUL byte. The lexer
  treats the buffer as a C string: \<open>src\<close> below is the bytes of the buffer, \<open>char_at\<close> reads
  one byte (the terminating NUL beyond the last byte), and \<open>strlen\<close> is the length up to
  the first NUL. Offsets, lines and columns are natural numbers (the C \<open>int\<close> and
  \<open>size_t\<close> counters, for files shorter than \<open>2^31\<close> bytes). The diagnostics printed to
  the standard streams are not part of the model.
\<close>

datatype TokenType =
    TOKEN_EOF
  | TOKEN_IDENTIFIER
  | TOKEN_NUMBER
  | TOKEN_LBRACE
  | TOKEN_RBRACE
  | TOKEN_LPAREN
  | TOKEN_RPAREN
  | TOKEN_SEMICOLON
  | TOKEN_COMMA
  | TOKEN_EQUAL
  | TOKEN_ASTERISK
  | TOKEN_DOT
  | TOKEN_COLON
  | TOKEN_MINUS
  | TOKEN_PLUS
  | TOKEN_SLASH
  | TOKEN_LT
  | TOKEN_GT
  | TOKEN_AMPERSAND
  | TOKEN_PIPE
  | TOKEN_EXCLAMATION
  | TOKEN_SHADER
  | TOKEN_UNIFORM
  | TOKEN_INPUT
  | TOKEN_VOID
  | TOKEN_OUT
  | TOKEN_VERTEX_SHADER
  | TOKEN_FRAGMENT_SHADER
  | TOKEN_FLOAT
  | TOKEN_VEC2
  | TOKEN_VEC3
  | TOKEN_VEC4
  | TOKEN_MAT4
  | TOKEN_SAMPLER2D
  | TOKEN_SAMPLERCUBE

text \<open>The numeric value of an enumerator, for the range tests on token types.\<close>

fun token_enum :: "TokenType \<Rightarrow> nat" where
  "token_enum TOKEN_EOF = 0"
| "token_enum TOKEN_IDENTIFIER = 1"
| "token_enum TOKEN_NUMBER = 2"
| "token_enum TOKEN_LBRACE = 3"
| "token_enum TOKEN_RBRACE = 4"
| "token_enum TOKEN_LPAREN = 5"
| "token_enum TOKEN_RPAREN = 6"
| "token_enum TOKEN_SEMICOLON = 7"
| "token_enum TOKEN_COMMA = 8"
| "token_enum TOKEN_EQUAL = 9"
| "token_enum TOKEN_ASTERISK = 10"
| "token_enum TOKEN_DOT = 11"
| "token_enum TOKEN_COLON = 12"
| "token_enum TOKEN_MINUS = 13"
| "token_enum TOKEN_PLUS = 14"
| "token_enum TOKEN_SLASH = 15"
| "token_enum TOKEN_LT = 16"
| "token_enum TOKEN_GT = 17"
| "token_enum TOKEN_AMPERSAND = 18"
| "token_enum TOKEN_PIPE = 19"
| "token_enum TOKEN_EXCLAMATION = 20"
| "token_enum TOKEN_SHADER = 21"
| "token_enum TOKEN_UNIFORM = 22"
| "token_enum TOKEN_INPUT = 23"
| "token_enum TOKEN_VOID = 24"
| "token_enum TOKEN_OUT = 25"
| "token_enum TOKEN_VERTEX_SHADER = 26"
| "token_enum TOKEN_FRAGMENT_SHADER = 27"
| "token_enum TOKEN_FLOAT = 28"
| "token_enum TOKEN_VEC2 = 29"
| "token_enum TOKEN_VEC3 = 30"
| "token_enum TOKEN_VEC4 = 31"
| "token_enum TOKEN_MAT4 = 32"
| "token_enum TOKEN_SAMPLER2D = 33"
| "token_enum TOKEN_SAMPLERCUBE = 34"

text \<open>
  A token is a view into the source buffer: \<open>tok_text\<close> is the offset of its first byte
  (the C field is the pointer \<open>src + offset\<close>), \<open>tok_length\<close> its length in bytes.
\<close>

record Token =
  tok_type :: TokenType
  tok_text :: nat
  tok_length :: nat
  tok_line :: nat
  tok_col :: nat

record Lexer =
  lex_pos :: nat
  lex_line :: nat
  lex_col :: nat

definition NUL :: char where
  "NUL = CHR 0x00"

definition char_at :: "string \<Rightarrow> nat \<Rightarrow> char" where
  "char_at src i = (if i < length src then src ! i else NUL)"

definition strlen :: "string \<Rightarrow> nat" where
  "strlen src = length (takeWhile (\<lambda>c. c \<noteq> NUL) src)"

definition lexer_init :: "Lexer" where
  "lexer_init = \<lparr>lex_pos = 0, lex_line = 1, lex_col = 1\<rparr>"

fun token_type_str :: "TokenType \<Rightarrow> string" where
  "token_type_str TOKEN_EOF = ''EOF''"
| "token_type_str TOKEN_IDENTIFIER = ''IDENTIFIER''"
| "token_type_str TOKEN_NUMBER = ''NUMBER''"
| "token_type_str TOKEN_LBRACE = ''{''"
| "token_type_str TOKEN_RBRACE = ''}''"
| "token_type_str TOKEN_LPAREN = ''(''"
| "token_type_str TOKEN_RPAREN = '')''"
| "token_type_str TOKEN_SEMICOLON = '';''"
| "token_type_str TOKEN_COMMA = '',''"
| "token_type_str TOKEN_EQUAL = ''=''"
| "token_type_str TOKEN_ASTERISK = ''*''"
| "token_type_str TOKEN_DOT = ''.''"
| "token_type_str TOKEN_COLON = '':''"
| "token_type_str TOKEN_MINUS = ''-''"
| "token_type_str TOKEN_PLUS = ''+''"
| "token_type_str TOKEN_SLASH = ''/''"
| "token_type_str TOKEN_LT = ''<''"
| "token_type_str TOKEN_GT = ''>''"
| "token_type_str TOKEN_AMPERSAND = ''&''"
| "token_type_str TOKEN_PIPE = ''|''"
| "token_type_str TOKEN_EXCLAMATION = ''!''"
| "token_type_str TOKEN_SHADER = ''shader''"
| "token_type_str TOKEN_UNIFORM = ''uniform''"
| "token_type_str TOKEN_INPUT = ''input''"
| "token_type_str TOKEN_VOID = ''void''"
| "token_type_str TOKEN_OUT = ''out''"
| "token_type_str TOKEN_VERTEX_SHADER = ''vertex_shader''"
| "token_type_str TOKEN_FRAGMENT_SHADER = ''fragment_shader''"
| "token_type_str TOKEN_FLOAT = ''float''"
| "token_type_str TOKEN_VEC2 = ''vec2''"
| "token_type_str TOKEN_VEC3 = ''vec3''"
| "token_type_str TOKEN_VEC4 = ''vec4''"
| "token_type_str TOKEN_MAT4 = ''mat4''"
| "token_type_str TOKEN_SAMPLER2D = ''sampler2D''"
| "token_type_str TOKEN_SAMPLERCUBE = ''samplerCube''"

definition is_alpha :: "char \<Rightarrow> bool" where
  "is_alpha c \<longleftrightarrow> (CHR ''a'' \<le> c \<and> c \<le> CHR ''z'') \<or> (CHR ''A'' \<le> c \<and> c \<le> CHR ''Z'') \<or> c = CHR ''_''"

definition is_digit :: "char \<Rightarrow> bool" where
  "is_digit c \<longleftrightarrow> CHR ''0'' \<le> c \<and> c \<le> CHR ''9''"

definition is_alnum :: "char \<Rightarrow> bool" where
  "is_alnum c \<longleftrightarrow> is_alpha c \<or> is_digit c"

text \<open>The body of a \<open>//\<close> comment: up to the end of the line or of the buffer.\<close>

function skip_line_comment :: "string \<Rightarrow> Lexer \<Rightarrow> Lexer" where
  "skip_line_comment src lx =
     (if char_at src (lex_pos lx) \<noteq> NUL \<and> char_at src (lex_pos lx) \<noteq> CHR 0x0A
      then skip_line_comment src (lx\<lparr>lex_pos := lex_pos lx + 1, lex_col := lex_col lx + 1\<rparr>)
      else lx)"
  by pat_completeness auto
termination
  by (relation "measure (\<lambda>(src, lx). length src - lex_pos lx)")
     (auto simp: char_at_def split: if_splits)

declare skip_line_comment.simps [simp del]

text \<open>The body of a \<open>/* */\<close> comment: up to the closing marker or the end of the buffer.\<close>

function skip_block_comment :: "string \<Rightarrow> Lexer \<Rightarrow> Lexer" where
  "skip_block_comment src lx =
     (if char_at src (lex_pos lx) \<noteq> NUL \<and>
         \<not> (char_at src (lex_pos lx) = CHR ''*'' \<and> char_at src (lex_pos lx + 1) = CHR ''/'')
      then skip_block_comment src
             (if char_at src (lex_pos lx) = CHR 0x0A
              then lx\<lparr>lex_pos := lex_pos lx + 1, lex_line := lex_line lx + 1, lex_col := 1\<rparr>
              else lx\<lparr>lex_pos := lex_pos lx + 1, lex_col := lex_col lx + 1\<rparr>)
      else lx)"
  by pat_completeness auto
termination
  by (relation "measure (\<lambda>(src, lx). length src - lex_pos lx)")
     (auto simp: char_at_def split: if_splits)

declare skip_block_comment.simps [simp del]

lemma skip_line_comment_mono: "lex_pos lx \<le> lex_pos (skip_line_comment src lx)"
proof (induction src lx rule: skip_line_comment.induct)
  case (1 src lx)
  then show ?case
    by (subst skip_line_comment.simps) (auto intro: Suc_leD)
qed

lemma skip_block_comment_mono: "lex_pos lx \<le> lex_pos (skip_block_comment src lx)"
proof (induction src lx rule: skip_block_comment.induct)
  case (1 src lx)
  then show ?case
    by (subst skip_block_comment.simps) (auto intro: Suc_leD)
qed

function skip_whitespace :: "string \<Rightarrow> Lexer \<Rightarrow> Lexer" where
  "skip_whitespace src lx =
     (let c = char_at src (lex_pos lx) in
      if c = CHR '' '' \<or> c = CHR 0x09 \<or> c = CHR 0x0D then
        skip_whitespace src (lx\<lparr>lex_pos := lex_pos lx + 1, lex_col := lex_col lx + 1\<rparr>)
      else if c = CHR 0x0A then
        skip_whitespace src (lx\<lparr>lex_pos := lex_pos lx + 1, lex_line := lex_line lx + 1, lex_col := 1\<rparr>)
      else if c = CHR ''/'' \<and> char_at src (lex_pos lx + 1) = CHR ''/'' then
        skip_whitespace src
          (skip_line_comment src (lx\<lparr>lex_pos := lex_pos lx + 2, lex_col := lex_col lx + 2\<rparr>))
      else if c = CHR ''/'' \<and> char_at src (lex_pos lx + 1) = CHR ''*'' then
        (let lex1 = skip_block_comment src (lx\<lparr>lex_pos := lex_pos lx + 2, lex_col := lex_col lx + 2\<rparr>) in
         skip_whitespace src
           (if char_at src (lex_pos lex1) \<noteq> NUL
            then lex1\<lparr>lex_pos := lex_pos lex1 + 2, lex_col := lex_col lex1 + 2\<rparr>
            else lex1))
      else lx)"
  by pat_completeness auto
termination
proof (relation "measure (\<lambda>(src, lx). length src - lex_pos lx)", goal_cases)
  case 1
  show ?case by simp
next
  case (2 src lx c)
  then show ?case by (auto simp: char_at_def NUL_def split: if_splits)
next
  case (3 src lx c)
  then show ?case by (auto simp: char_at_def NUL_def split: if_splits)
next
  case (4 src lx c)
  have "lex_pos lx + 2 \<le> lex_pos (skip_line_comment src (lx\<lparr>lex_pos := lex_pos lx + 2, lex_col := lex_col lx + 2\<rparr>))"
    using skip_line_comment_mono [of "lx\<lparr>lex_pos := lex_pos lx + 2, lex_col := lex_col lx + 2\<rparr>" src]
    by simp
  moreover from 4 have "lex_pos lx < length src"
    by (auto simp: char_at_def NUL_def split: if_splits)
  ultimately show ?case by simp
next
  case (5 src lx c lex1)
  have "lex_pos lx + 2 \<le> lex_pos lex1"
    using skip_block_comment_mono [of "lx\<lparr>lex_pos := lex_pos lx + 2, lex_col := lex_col lx + 2\<rparr>" src] 5
    by simp
  moreover from 5 have "lex_pos lx < length src"
    by (auto simp: char_at_def NUL_def split: if_splits)
  ultimately show ?case by auto
qed

declare skip_whitespace.simps [simp del]

definition match_keyword :: "string \<Rightarrow> nat \<Rightarrow> nat \<Rightarrow> string \<Rightarrow> bool" where
  \<comment> \<open>\<open>text\<close> is the pointer \<open>src + start\<close>; \<open>strncmp\<close> compares the first \<open>strlen kw\<close> bytes\<close>
  "match_keyword src start len kw \<longleftrightarrow>
     len = length kw \<and> take (length kw) (drop start src) = kw"

definition check_keyword :: "string \<Rightarrow> nat \<Rightarrow> nat \<Rightarrow> TokenType" where
  "check_keyword src start len =
     (if match_keyword src start len ''shader'' then TOKEN_SHADER
      else if match_keyword src start len ''uniform'' then TOKEN_UNIFORM
      else if match_keyword src start len ''input'' then TOKEN_INPUT
      else if match_keyword src start len ''void'' then TOKEN_VOID
      else if match_keyword src start len ''out'' then TOKEN_OUT
      else if match_keyword src start len ''vertex_shader'' then TOKEN_VERTEX_SHADER
      else if match_keyword src start len ''fragment_shader'' then TOKEN_FRAGMENT_SHADER
      else if match_keyword src start len ''float'' then TOKEN_FLOAT
      else if match_keyword src start len ''vec2'' then TOKEN_VEC2
      else if match_keyword src start len ''vec3'' then TOKEN_VEC3
      else if match_keyword src start len ''vec4'' then TOKEN_VEC4
      else if match_keyword src start len ''mat4'' then TOKEN_MAT4
      else if match_keyword src start len ''sampler2D'' then TOKEN_SAMPLER2D
      else if match_keyword src start len ''samplerCube'' then TOKEN_SAMPLERCUBE
      else TOKEN_IDENTIFIER)"

text \<open>The loop over the bytes of an identifier, and the loop over a run of digits.\<close>

function lexer_next_ident :: "string \<Rightarrow> Lexer \<Rightarrow> Lexer" where
  "lexer_next_ident src lx =
     (if is_alnum (char_at src (lex_pos lx)) \<or> char_at src (lex_pos lx) = CHR ''_''
      then lexer_next_ident src (lx\<lparr>lex_pos := lex_pos lx + 1, lex_col := lex_col lx + 1\<rparr>)
      else lx)"
  by pat_completeness auto
termination
  by (relation "measure (\<lambda>(src, lx). length src - lex_pos lx)")
     (auto simp: char_at_def NUL_def is_alnum_def is_alpha_def is_digit_def split: if_splits)

declare lexer_next_ident.simps [simp del]

function lexer_next_digits :: "string \<Rightarrow> Lexer \<Rightarrow> Lexer" where
  "lexer_next_digits src lx =
     (if is_digit (char_at src (lex_pos lx))
      then lexer_next_digits src (lx\<lparr>lex_pos := lex_pos lx + 1, lex_col := lex_col lx + 1\<rparr>)
      else lx)"
  by pat_completeness auto
termination
  by (relation "measure (\<lambda>(src, lx). length src - lex_pos lx)")
     (auto simp: char_at_def NUL_def is_digit_def split: if_splits)

declare lexer_next_digits.simps [simp del]

text \<open>The \<open>switch\<close> over the punctuation bytes; \<open>None\<close> is its \<open>default\<close> branch.\<close>

definition symbol_type :: "char \<Rightarrow> TokenType option" where
  "symbol_type c =
     (if c = CHR ''{'' then Some TOKEN_LBRACE
      else if c = CHR ''}'' then Some TOKEN_RBRACE
      else if c = CHR ''('' then Some TOKEN_LPAREN
      else if c = CHR '')'' then Some TOKEN_RPAREN
      else if c = CHR '';'' then Some TOKEN_SEMICOLON
      else if c = CHR '','' then Some TOKEN_COMMA
      else if c = CHR ''='' then Some TOKEN_EQUAL
      else if c = CHR ''*'' then Some TOKEN_ASTERISK
      else if c = CHR ''.'' then Some TOKEN_DOT
      else if c = CHR '':'' then Some TOKEN_COLON
      else if c = CHR ''-'' then Some TOKEN_MINUS
      else if c = CHR ''+'' then Some TOKEN_PLUS
      else if c = CHR ''/'' then Some TOKEN_SLASH
      else if c = CHR ''<'' then Some TOKEN_LT
      else if c = CHR ''>'' then Some TOKEN_GT
      else if c = CHR ''&'' then Some TOKEN_AMPERSAND
      else if c = CHR ''|'' then Some TOKEN_PIPE
      else if c = CHR ''!'' then Some TOKEN_EXCLAMATION
      else None)"

definition lexer_next :: "string \<Rightarrow> Lexer \<Rightarrow> Token \<times> Lexer" where
  "lexer_next src lex0 =
     (let lx = skip_whitespace src lex0 in
      if lex_pos lx \<ge> strlen src then
        (\<lparr>tok_type = TOKEN_EOF, tok_text = lex_pos lx, tok_length = 0,
          tok_line = lex_line lx, tok_col = lex_col lx\<rparr>, lx)
      else
        (let c = char_at src (lex_pos lx);
             start_pos = lex_pos lx;
             start_line = lex_line lx;
             start_col = lex_col lx in
         if is_alpha c \<or> c = CHR ''_'' then
           (let lex1 = lexer_next_ident src lx;
                len = lex_pos lex1 - start_pos in
            (\<lparr>tok_type = check_keyword src start_pos len, tok_text = start_pos, tok_length = len,
              tok_line = start_line, tok_col = start_col\<rparr>, lex1))
         else if is_digit c then
           (let lex1 = lexer_next_digits src lx;
                lex2 = (if char_at src (lex_pos lex1) = CHR ''.''
                        then lexer_next_digits src
                               (lex1\<lparr>lex_pos := lex_pos lex1 + 1, lex_col := lex_col lex1 + 1\<rparr>)
                        else lex1);
                len = lex_pos lex2 - start_pos in
            (\<lparr>tok_type = TOKEN_NUMBER, tok_text = start_pos, tok_length = len,
              tok_line = start_line, tok_col = start_col\<rparr>, lex2))
         else
           (\<lparr>tok_type = (case symbol_type c of Some t \<Rightarrow> t | None \<Rightarrow> TOKEN_EOF),
             tok_text = start_pos, tok_length = 1,
             tok_line = start_line, tok_col = start_col\<rparr>,
            lx\<lparr>lex_pos := lex_pos lx + 1, lex_col := lex_col lx + 1\<rparr>)))"

section \<open>Syntax tree\<close>

text \<open>
  The singly linked lists of the C structures (\<open>next\<close> pointers) are HOL lists. Strings are
  C strings: the driver hands the parser the buffer up to its first NUL byte, so the
  text of a token and the text from a token to the end of the buffer hold no NUL. The
  ways the process can stop early are values of \<open>error\<close>: \<open>Exit1\<close> is a call of \<open>exit(1)\<close>
  (or the return of 1 from \<open>main\<close>), \<open>Segfault\<close> a store through a pointer computed from a
  null pointer, \<open>Invalid_free\<close> a call of \<open>free\<close> on a pointer that is no live heap block
  (a block released before, or an address inside the source buffer), at which the C
  library stops the process.

  Where the clean-up after generation depends on which block a pointer refers to, the
  records say so. The two strings of a uniform or input declaration are allocated by
  \<open>token_to_str\<close> in one call of \<open>parse_uniform\<close> or \<open>parse_input\<close>; \<open>uniform_strings\<close> and
  \<open>input_strings\<close> name this pair of blocks by the offset of the type token they were
  copied from, which differs from one call to the next. A copy of a declaration that
  copies the two pointers keeps the number. \<open>stmt_in_source\<close> tells whether the text pointer
  of a statement is an address inside the source buffer rather than a block of its own.
  Every other block (names, list nodes, transformed bodies) is referred to by one node
  only and released once.
\<close>

datatype error = Exit1 | Segfault | Invalid_free

record FXUniform =
  uniform_type :: string
  uniform_name :: string
  uniform_strings :: nat

record FXInput =
  input_type :: string
  input_name :: string
  input_strings :: nat

record FXStatement =
  stmt_text :: string
  stmt_length :: nat
  stmt_in_source :: bool

record FXFunction =
  fn_name :: string
  is_vertex :: bool
  is_fragment :: bool
  out_type :: "string option"
  out_name :: "string option"
  statements :: "FXStatement list"

record FXShader =
  shader_name :: string
  uniforms :: "FXUniform list"
  inputs :: "FXInput list"
  fx_functions :: "FXFunction list"

record Parser =
  p_lex :: Lexer
  current :: Token

section \<open>Parser\<close>

definition parser_advance :: "string \<Rightarrow> Parser \<Rightarrow> Parser" where
  "parser_advance src p =
     (case lexer_next src (p_lex p) of (t, lx) \<Rightarrow> \<lparr>p_lex = lx, current = t\<rparr>)"

definition parser_match :: "string \<Rightarrow> Parser \<Rightarrow> TokenType \<Rightarrow> bool \<times> Parser" where
  "parser_match src p ty =
     (if tok_type (current p) = ty then (True, parser_advance src p) else (False, p))"

text \<open>\<open>parser_expect\<close> logs a diagnostic when the match fails and returns 0; it does not stop.\<close>

definition parser_expect :: "string \<Rightarrow> Parser \<Rightarrow> TokenType \<Rightarrow> bool \<times> Parser" where
  "parser_expect src p ty = parser_match src p ty"

text \<open>The range tests \<open>type < TOKEN_FLOAT || type > TOKEN_SAMPLERCUBE\<close> (and \<open>TOKEN_MAT4\<close>).\<close>

definition outside_types :: "TokenType \<Rightarrow> TokenType \<Rightarrow> bool" where
  "outside_types ty hi \<longleftrightarrow>
     token_enum ty < token_enum TOKEN_FLOAT \<or> token_enum ty > token_enum hi"

text \<open>
  The progress measure of the parser's loops: what is left of the buffer, and whether the
  current token is still to be consumed.
\<close>

definition parser_fuel :: "string \<Rightarrow> Parser \<Rightarrow> nat" where
  "parser_fuel src p =
     2 * (length src - lex_pos (p_lex p)) + (if tok_type (current p) = TOKEN_EOF then 0 else 1)"

lemma strlen_le_length: "strlen src \<le> length src"
  by (simp add: strlen_def length_takeWhile_le)

lemma skip_whitespace_mono: "lex_pos lx \<le> lex_pos (skip_whitespace src lx)"
proof (induction src lx rule: skip_whitespace.induct)
  case (1 src lx)
  let ?c = "char_at src (lex_pos lx)"
  let ?l2 = "lx\<lparr>lex_pos := lex_pos lx + 2, lex_col := lex_col lx + 2\<rparr>"
  consider (ws) "?c = CHR '' '' \<or> ?c = CHR 0x09 \<or> ?c = CHR 0x0D"
    | (nl) "\<not> (?c = CHR '' '' \<or> ?c = CHR 0x09 \<or> ?c = CHR 0x0D)" "?c = CHR 0x0A"
    | (lc) "\<not> (?c = CHR '' '' \<or> ?c = CHR 0x09 \<or> ?c = CHR 0x0D)" "?c \<noteq> CHR 0x0A"
        "?c = CHR ''/'' \<and> char_at src (lex_pos lx + 1) = CHR ''/''"
    | (bc) "\<not> (?c = CHR '' '' \<or> ?c = CHR 0x09 \<or> ?c = CHR 0x0D)" "?c \<noteq> CHR 0x0A"
        "\<not> (?c = CHR ''/'' \<and> char_at src (lex_pos lx + 1) = CHR ''/'')"
        "?c = CHR ''/'' \<and> char_at src (lex_pos lx + 1) = CHR ''*''"
    | (stop) "\<not> (?c = CHR '' '' \<or> ?c = CHR 0x09 \<or> ?c = CHR 0x0D)" "?c \<noteq> CHR 0x0A"
        "\<not> (?c = CHR ''/'' \<and> char_at src (lex_pos lx + 1) = CHR ''/'')"
        "\<not> (?c = CHR ''/'' \<and> char_at src (lex_pos lx + 1) = CHR ''*'')"
    by blast
  then show ?case
  proof cases
    case ws
    from "1.IH"(1) [OF refl ws] ws show ?thesis
      by (subst skip_whitespace.simps) (simp add: Let_def)
  next
    case nl
    from "1.IH"(2) [OF refl nl] nl show ?thesis
      by (subst skip_whitespace.simps) (simp add: Let_def)
  next
    case lc
    have "lex_pos ?l2 \<le> lex_pos (skip_line_comment src ?l2)"
      by (rule skip_line_comment_mono)
    with "1.IH"(3) [OF refl lc] lc show ?thesis
      by (subst skip_whitespace.simps) (simp add: Let_def)
  next
    case bc
    have "lex_pos ?l2 \<le> lex_pos (skip_block_comment src ?l2)"
      by (rule skip_block_comment_mono)
    with "1.IH"(4) [OF refl bc refl] bc show ?thesis
      by (subst skip_whitespace.simps) (auto simp: Let_def split: if_splits)
  next
    case stop
    then show ?thesis
      by (subst skip_whitespace.simps) (auto simp: Let_def)
  qed
qed

lemma skip_whitespace_at_end:
  "length src \<le> lex_pos lx \<Longrightarrow> skip_whitespace src lx = lx"
  by (subst skip_whitespace.simps) (simp add: char_at_def NUL_def Let_def)

lemma lexer_next_ident_mono: "lex_pos lx \<le> lex_pos (lexer_next_ident src lx)"
proof (induction src lx rule: lexer_next_ident.induct)
  case (1 src lx)
  then show ?case
    by (subst lexer_next_ident.simps) (auto intro: Suc_leD)
qed

lemma lexer_next_ident_first:
  assumes "is_alpha (char_at src (lex_pos lx)) \<or> char_at src (lex_pos lx) = CHR ''_''"
  shows "lex_pos lx < lex_pos (lexer_next_ident src lx)"
proof -
  from assms have "is_alnum (char_at src (lex_pos lx)) \<or> char_at src (lex_pos lx) = CHR ''_''"
    by (auto simp: is_alnum_def)
  then have "lexer_next_ident src lx =
      lexer_next_ident src (lx\<lparr>lex_pos := lex_pos lx + 1, lex_col := lex_col lx + 1\<rparr>)"
    by (subst lexer_next_ident.simps) simp
  with lexer_next_ident_mono [of "lx\<lparr>lex_pos := lex_pos lx + 1, lex_col := lex_col lx + 1\<rparr>" src]
  show ?thesis by simp
qed

lemma lexer_next_digits_mono: "lex_pos lx \<le> lex_pos (lexer_next_digits src lx)"
proof (induction src lx rule: lexer_next_digits.induct)
  case (1 src lx)
  then show ?case
    by (subst lexer_next_digits.simps) (auto intro: Suc_leD)
qed

lemma lexer_next_digits_first:
  assumes "is_digit (char_at src (lex_pos lx))"
  shows "lex_pos lx < lex_pos (lexer_next_digits src lx)"
proof -
  from assms have "lexer_next_digits src lx =
      lexer_next_digits src (lx\<lparr>lex_pos := lex_pos lx + 1, lex_col := lex_col lx + 1\<rparr>)"
    by (subst lexer_next_digits.simps) simp
  with lexer_next_digits_mono [of "lx\<lparr>lex_pos := lex_pos lx + 1, lex_col := lex_col lx + 1\<rparr>" src]
  show ?thesis by simp
qed

lemma lexer_next_progress:
  assumes "lexer_next src lx = (t, lx')"
  shows "lex_pos lx \<le> lex_pos lx'" and "tok_type t \<noteq> TOKEN_EOF \<Longrightarrow> lex_pos lx < lex_pos lx'"
proof -
  define l0 where "l0 = skip_whitespace src lx"
  have m0: "lex_pos lx \<le> lex_pos l0"
    by (simp add: l0_def skip_whitespace_mono)
  define l1 where "l1 = lexer_next_digits src l0"
  have m1: "lex_pos l0 \<le> lex_pos l1"
    by (simp add: l1_def lexer_next_digits_mono)
  have m2: "lex_pos l1 \<le> lex_pos (lexer_next_digits src (l1\<lparr>lex_pos := lex_pos l1 + 1, lex_col := lex_col l1 + 1\<rparr>))"
    using lexer_next_digits_mono [of "l1\<lparr>lex_pos := lex_pos l1 + 1, lex_col := lex_col l1 + 1\<rparr>" src]
    by simp
  have m3: "lex_pos l0 \<le> lex_pos (lexer_next_ident src l0)"
    by (rule lexer_next_ident_mono)
  from assms m0 m1 m2 m3 show "lex_pos lx \<le> lex_pos lx'"
    by (auto simp: lexer_next_def l0_def [symmetric] l1_def [symmetric] Let_def split: if_splits)
  assume ne: "tok_type t \<noteq> TOKEN_EOF"
  have s3: "is_alpha (char_at src (lex_pos l0)) \<or> char_at src (lex_pos l0) = CHR ''_''
      \<Longrightarrow> lex_pos l0 < lex_pos (lexer_next_ident src l0)"
    by (rule lexer_next_ident_first)
  have s1: "is_digit (char_at src (lex_pos l0)) \<Longrightarrow> lex_pos l0 < lex_pos l1"
    unfolding l1_def by (rule lexer_next_digits_first)
  from assms ne m0 m2 s1 s3 show "lex_pos lx < lex_pos lx'"
    by (auto simp: lexer_next_def l0_def [symmetric] l1_def [symmetric] Let_def split: if_splits)
qed

lemma lexer_next_at_end:
  assumes "length src \<le> lex_pos lx" and "lexer_next src lx = (t, lx')"
  shows "tok_type t = TOKEN_EOF" and "lx' = lx"
proof -
  from assms(1) have "skip_whitespace src lx = lx"
    by (rule skip_whitespace_at_end)
  moreover from assms(1) have "strlen src \<le> lex_pos lx"
    using strlen_le_length [of src] by simp
  ultimately show "tok_type t = TOKEN_EOF" and "lx' = lx"
    using assms(2) by (auto simp: lexer_next_def Let_def)
qed

lemma parser_advance_fuel_le: "parser_fuel src (parser_advance src p) \<le> parser_fuel src p"
proof -
  obtain t lx' where ln: "lexer_next src (p_lex p) = (t, lx')"
    by (cases "lexer_next src (p_lex p)")
  show ?thesis
  proof (cases "length src \<le> lex_pos (p_lex p)")
    case True
    from lexer_next_at_end [OF True ln] ln show ?thesis
      by (simp add: parser_advance_def parser_fuel_def)
  next
    case False
    show ?thesis
    proof (cases "tok_type t = TOKEN_EOF")
      case True
      with lexer_next_progress(1) [OF ln] ln show ?thesis
        by (simp add: parser_advance_def parser_fuel_def)
    next
      case ne: False
      with lexer_next_progress(2) [OF ln] ln False show ?thesis
        by (simp add: parser_advance_def parser_fuel_def)
    qed
  qed
qed

lemma parser_advance_fuel_less:
  assumes "tok_type (current p) \<noteq> TOKEN_EOF"
  shows "parser_fuel src (parser_advance src p) < parser_fuel src p"
proof -
  obtain t lx' where ln: "lexer_next src (p_lex p) = (t, lx')"
    by (cases "lexer_next src (p_lex p)")
  show ?thesis
  proof (cases "length src \<le> lex_pos (p_lex p)")
    case True
    from lexer_next_at_end [OF True ln] ln assms show ?thesis
      by (simp add: parser_advance_def parser_fuel_def)
  next
    case False
    show ?thesis
    proof (cases "tok_type t = TOKEN_EOF")
      case True
      with lexer_next_progress(1) [OF ln] ln assms show ?thesis
        by (simp add: parser_advance_def parser_fuel_def)
    next
      case ne: False
      with lexer_next_progress(2) [OF ln] ln False show ?thesis
        by (simp add: parser_advance_def parser_fuel_def)
    qed
  qed
qed

lemma parser_match_fuel_le: "parser_fuel src (snd (parser_match src p ty)) \<le> parser_fuel src p"
  by (simp add: parser_match_def parser_advance_fuel_le)

lemma parser_expect_fuel_le: "parser_fuel src (snd (parser_expect src p ty)) \<le> parser_fuel src p"
  by (simp add: parser_expect_def parser_match_fuel_le)

lemma parser_expect_fuel_less:
  assumes "tok_type (current p) = ty" and "ty \<noteq> TOKEN_EOF"
  shows "parser_fuel src (snd (parser_expect src p ty)) < parser_fuel src p"
  using assms parser_advance_fuel_less [of p src]
  by (simp add: parser_expect_def parser_match_def)

definition token_to_str :: "string \<Rightarrow> Token \<Rightarrow> string" where
  "token_to_str src t = take (tok_length t) (drop (tok_text t) src)"

definition parse_uniform :: "string \<Rightarrow> Parser \<Rightarrow> FXUniform option \<times> Parser" where
  "parse_uniform src p =
     (case parser_expect src p TOKEN_UNIFORM of
        (False, p1) \<Rightarrow> (None, p1)
      | (True, p1) \<Rightarrow>
          if outside_types (tok_type (current p1)) TOKEN_SAMPLERCUBE then (None, p1)
          else
            (let type = token_to_str src (current p1);
                 p2 = parser_advance src p1 in
             if tok_type (current p2) \<noteq> TOKEN_IDENTIFIER then (None, p2)
             else
               (let name = token_to_str src (current p2);
                    p3 = parser_advance src p2 in
                case parser_expect src p3 TOKEN_SEMICOLON of
                  (False, p4) \<Rightarrow> (None, p4)
                | (True, p4) \<Rightarrow> (Some \<lparr>uniform_type = type, uniform_name = name,
                                      uniform_strings = tok_text (current p1)\<rparr>, p4))))"

definition parse_input :: "string \<Rightarrow> Parser \<Rightarrow> FXInput option \<times> Parser" where
  "parse_input src p =
     (case parser_expect src p TOKEN_INPUT of
        (False, p1) \<Rightarrow> (None, p1)
      | (True, p1) \<Rightarrow>
          if outside_types (tok_type (current p1)) TOKEN_SAMPLERCUBE then (None, p1)
          else
            (let type = token_to_str src (current p1);
                 p2 = parser_advance src p1 in
             if tok_type (current p2) \<noteq> TOKEN_IDENTIFIER then (None, p2)
             else
               (let name = token_to_str src (current p2);
                    p3 = parser_advance src p2 in
                case parser_expect src p3 TOKEN_SEMICOLON of
                  (False, p4) \<Rightarrow> (None, p4)
                | (True, p4) \<Rightarrow> (Some \<lparr>input_type = type, input_name = name,
                                      input_strings = tok_text (current p1)\<rparr>, p4))))"


lemma parse_uniform_fuel_le: "parser_fuel src (snd (parse_uniform src p)) \<le> parser_fuel src p"
proof -
  have a: "parser_fuel src (parser_advance src q) \<le> parser_fuel src q" for q
    by (rule parser_advance_fuel_le)
  have aa: "parser_fuel src (parser_advance src (parser_advance src q)) \<le> parser_fuel src q" for q
    by (rule order_trans [OF a a])
  have aaa: "parser_fuel src (parser_advance src (parser_advance src (parser_advance src q)))
      \<le> parser_fuel src q" for q
    by (rule order_trans [OF a aa])
  have aaaa: "parser_fuel src (parser_advance src (parser_advance src (parser_advance src (parser_advance src q))))
      \<le> parser_fuel src q" for q
    by (rule order_trans [OF a aaa])
  show ?thesis
    by (simp add: parse_uniform_def parser_expect_def parser_match_def Let_def a aa aaa aaaa)
qed

lemma parse_uniform_fuel_less:
  assumes "tok_type (current p) = TOKEN_UNIFORM"
  shows "parser_fuel src (snd (parse_uniform src p)) < parser_fuel src p"
proof -
  have s: "parser_fuel src (parser_advance src p) < parser_fuel src p"
    using assms by (simp add: parser_advance_fuel_less)
  have a: "parser_fuel src (parser_advance src q) \<le> parser_fuel src q" for q
    by (rule parser_advance_fuel_le)
  have aa: "parser_fuel src (parser_advance src (parser_advance src p)) < parser_fuel src p"
    by (rule le_less_trans [OF a s])
  have aaa: "parser_fuel src (parser_advance src (parser_advance src (parser_advance src p)))
      < parser_fuel src p"
    by (rule le_less_trans [OF a aa])
  have aaaa: "parser_fuel src (parser_advance src (parser_advance src (parser_advance src (parser_advance src p))))
      < parser_fuel src p"
    by (rule le_less_trans [OF a aaa])
  from assms show ?thesis
    by (simp add: parse_uniform_def parser_expect_def parser_match_def Let_def s aa aaa aaaa)
qed

lemma parse_input_fuel_le: "parser_fuel src (snd (parse_input src p)) \<le> parser_fuel src p"
proof -
  have a: "parser_fuel src (parser_advance src q) \<le> parser_fuel src q" for q
    by (rule parser_advance_fuel_le)
  have aa: "parser_fuel src (parser_advance src (parser_advance src q)) \<le> parser_fuel src q" for q
    by (rule order_trans [OF a a])
  have aaa: "parser_fuel src (parser_advance src (parser_advance src (parser_advance src q)))
      \<le> parser_fuel src q" for q
    by (rule order_trans [OF a aa])
  have aaaa: "parser_fuel src (parser_advance src (parser_advance src (parser_advance src (parser_advance src q))))
      \<le> parser_fuel src q" for q
    by (rule order_trans [OF a aaa])
  show ?thesis
    by (simp add: parse_input_def parser_expect_def parser_match_def Let_def a aa aaa aaaa)
qed

lemma parse_input_fuel_less:
  assumes "tok_type (current p) = TOKEN_INPUT"
  shows "parser_fuel src (snd (parse_input src p)) < parser_fuel src p"
proof -
  have s: "parser_fuel src (parser_advance src p) < parser_fuel src p"
    using assms by (simp add: parser_advance_fuel_less)
  have a: "parser_fuel src (parser_advance src q) \<le> parser_fuel src q" for q
    by (rule parser_advance_fuel_le)
  have aa: "parser_fuel src (parser_advance src (parser_advance src p)) < parser_fuel src p"
    by (rule le_less_trans [OF a s])
  have aaa: "parser_fuel src (parser_advance src (parser_advance src (parser_advance src p)))
      < parser_fuel src p"
    by (rule le_less_trans [OF a aa])
  have aaaa: "parser_fuel src (parser_advance src (parser_advance src (parser_advance src (parser_advance src p))))
      < parser_fuel src p"
    by (rule le_less_trans [OF a aaa])
  from assms show ?thesis
    by (simp add: parse_input_def parser_expect_def parser_match_def Let_def s aa aaa aaaa)
qed

text \<open>
  The loop of \<open>parse_statement\<close>. Its guard stops at the first closing brace, so the two
  updates of \<open>depth\<close> never let the loop run past one.
\<close>

function parse_statement_loop :: "string \<Rightarrow> Parser \<Rightarrow> nat \<Rightarrow> Parser" where
  "parse_statement_loop src p depth =
     (if tok_type (current p) \<noteq> TOKEN_RBRACE \<and> tok_type (current p) \<noteq> TOKEN_EOF then
        (let depth1 = (if tok_type (current p) = TOKEN_LBRACE then depth + 1 else depth);
             depth2 = (if tok_type (current p) = TOKEN_RBRACE \<and> depth1 > 0 then depth1 - 1 else depth1);
             p1 = parser_advance src p in
         if depth2 = 0 \<and> (tok_type (current p1) = TOKEN_RBRACE \<or> tok_type (current p1) = TOKEN_EOF)
         then p1
         else parse_statement_loop src p1 depth2)
      else p)"
  by pat_completeness auto
termination
  by (relation "measure (\<lambda>(src, p, depth). parser_fuel src p)")
     (auto simp: parser_advance_fuel_less)

declare parse_statement_loop.simps [simp del]

lemma parse_statement_loop_fuel_le:
  "parser_fuel src (parse_statement_loop src p depth) \<le> parser_fuel src p"
proof (induction src p depth rule: parse_statement_loop.induct)
  case (1 src p depth)
  have a: "parser_fuel src (parser_advance src p) \<le> parser_fuel src p"
    by (rule parser_advance_fuel_le)
  have b: "x \<le> parser_fuel src (parser_advance src p) \<Longrightarrow> x \<le> parser_fuel src p" for x
    using a by simp
  from "1.IH" show ?case
    by (subst parse_statement_loop.simps) (auto simp: Let_def a intro!: b)
qed

text \<open>
  A legacy body is a view into the source buffer: \<open>stmt_text\<close> is the C string that starts
  at the body's first token (it runs to the end of the buffer), \<open>stmt_length\<close> the distance
  to the token the loop stopped at.
\<close>

definition parse_statement :: "string \<Rightarrow> Parser \<Rightarrow> FXStatement \<times> Parser" where
  "parse_statement src p =
     (let start = tok_text (current p);
          p1 = parse_statement_loop src p 0;
          end = tok_text (current p1) in
      (\<lparr>stmt_text = drop start src, stmt_length = end - start, stmt_in_source = True\<rparr>, p1))"

text \<open>The end of \<open>parse_function\<close>, from the closing parenthesis on.\<close>

definition parse_function_rest ::
  "string \<Rightarrow> Parser \<Rightarrow> string \<Rightarrow> string option \<Rightarrow> string option \<Rightarrow> FXFunction \<times> Parser" where
  "parse_function_rest src p name otype oname =
     (let p1 = snd (parser_expect src p TOKEN_RPAREN);
          p2 = snd (parser_expect src p1 TOKEN_LBRACE);
          stmts = parse_statement src p2;
          p3 = snd (parser_expect src (snd stmts) TOKEN_RBRACE) in
      (\<lparr>fn_name = name, is_vertex = (name = ''vertex''), is_fragment = (name = ''fragment''),
        out_type = otype, out_name = oname, statements = [fst stmts]\<rparr>, p3))"

text \<open>
  A legacy function. The name is copied from the current token after \<open>parser_expect\<close> has
  consumed the identifier, so it is the text of the token that follows the identifier;
  the stage flags compare this text with \<open>vertex\<close> and \<open>fragment\<close>.
\<close>

definition parse_function :: "string \<Rightarrow> Parser \<Rightarrow> error + (FXFunction \<times> Parser)" where
  "parse_function src p =
     (let p1 = snd (parser_expect src p TOKEN_VOID);
          p2 = snd (parser_expect src p1 TOKEN_IDENTIFIER);
          name = token_to_str src (current p2);
          is_fragment = (name = ''fragment'');
          p3 = snd (parser_expect src p2 TOKEN_LPAREN);
          has_out = (if is_fragment then parser_match src p3 TOKEN_OUT else (False, p3));
          p4 = snd has_out in
      if fst has_out then
        (if outside_types (tok_type (current p4)) TOKEN_MAT4 then Inl Exit1
         else
           (let otype = token_to_str src (current p4);
                p5 = parser_advance src p4;
                p6 = snd (parser_expect src p5 TOKEN_IDENTIFIER);
                oname = token_to_str src (current p6) in
            Inr (parse_function_rest src p6 name (Some otype) (Some oname))))
      else Inr (parse_function_rest src p4 name None None))"

lemma parse_statement_fuel_le:
  "parser_fuel src (snd (parse_statement src p)) \<le> parser_fuel src p"
  by (simp add: parse_statement_def Let_def parse_statement_loop_fuel_le)

lemma parse_function_rest_fuel_le:
  "parser_fuel src (snd (parse_function_rest src p name otype oname)) \<le> parser_fuel src p"
proof -
  let ?p1 = "snd (parser_expect src p TOKEN_RPAREN)"
  let ?p2 = "snd (parser_expect src ?p1 TOKEN_LBRACE)"
  let ?p3 = "snd (parse_statement src ?p2)"
  let ?p4 = "snd (parser_expect src ?p3 TOKEN_RBRACE)"
  have "parser_fuel src ?p4 \<le> parser_fuel src ?p3" by (rule parser_expect_fuel_le)
  also have "\<dots> \<le> parser_fuel src ?p2" by (rule parse_statement_fuel_le)
  also have "\<dots> \<le> parser_fuel src ?p1" by (rule parser_expect_fuel_le)
  also have "\<dots> \<le> parser_fuel src p" by (rule parser_expect_fuel_le)
  finally show ?thesis
    by (simp add: parse_function_rest_def Let_def)
qed

lemma parse_function_fuel_less:
  assumes "parse_function src p = Inr (f, p')" and "tok_type (current p) = TOKEN_VOID"
  shows "parser_fuel src p' < parser_fuel src p"
proof -
  let ?p1 = "snd (parser_expect src p TOKEN_VOID)"
  let ?p2 = "snd (parser_expect src ?p1 TOKEN_IDENTIFIER)"
  let ?p3 = "snd (parser_expect src ?p2 TOKEN_LPAREN)"
  let ?name = "token_to_str src (current ?p2)"
  have 1: "parser_fuel src ?p1 < parser_fuel src p"
    using assms(2) by (simp add: parser_expect_fuel_less)
  have "parser_fuel src ?p3 \<le> parser_fuel src ?p2" by (rule parser_expect_fuel_le)
  also have "\<dots> \<le> parser_fuel src ?p1" by (rule parser_expect_fuel_le)
  finally have 3: "parser_fuel src ?p3 < parser_fuel src p"
    using 1 by simp
  let ?m = "parser_match src ?p3 TOKEN_OUT"
  have 4: "parser_fuel src (snd ?m) < parser_fuel src p"
    using parser_match_fuel_le [of src ?p3 TOKEN_OUT] 3 by simp
  let ?p5 = "parser_advance src (snd ?m)"
  let ?p6 = "snd (parser_expect src ?p5 TOKEN_IDENTIFIER)"
  have "parser_fuel src ?p6 \<le> parser_fuel src ?p5" by (rule parser_expect_fuel_le)
  also have "\<dots> \<le> parser_fuel src (snd ?m)" by (rule parser_advance_fuel_le)
  finally have 6: "parser_fuel src ?p6 < parser_fuel src p"
    using 4 by simp
  have r: "parser_fuel src q < parser_fuel src p \<Longrightarrow> parse_function_rest src q n a b = (g, q') \<Longrightarrow>
      parser_fuel src q' < parser_fuel src p" for q n a b g q'
    using parse_function_rest_fuel_le [of src q n a b] by simp
  from assms(1) show ?thesis
    by (auto simp: parse_function_def Let_def split: if_splits intro: r [OF 3] r [OF 4] r [OF 6])
qed

section \<open>Body transformer\<close>

abbreviation NL :: string where
  "NL \<equiv> [CHR 0x0A]"

text \<open>A semantic annotation after a name: a colon and, when one follows, an identifier.\<close>

definition skip_semantic :: "string \<Rightarrow> Parser \<Rightarrow> Parser" where
  "skip_semantic src p =
     (if tok_type (current p) = TOKEN_COLON then
        (let p1 = parser_advance src p in
         if tok_type (current p1) = TOKEN_IDENTIFIER then parser_advance src p1 else p1)
      else p)"

text \<open>
  The branch of the body loop for an \<open>out\<close> declaration. The result is the parser after the
  declaration and the output buffer.
\<close>

definition body_out_declaration ::
  "string \<Rightarrow> bool \<Rightarrow> Parser \<Rightarrow> string \<Rightarrow> error + (Parser \<times> string)" where
  "body_out_declaration src vertex p body =
     (let p1 = parser_advance src p in
      if outside_types (tok_type (current p1)) TOKEN_SAMPLERCUBE then Inl Exit1
      else
        (case
           (if vertex then
              (let body1 = body @ ''out '' @ token_to_str src (current p1) @ '' '';
                   p2 = parser_advance src p1 in
               if tok_type (current p2) \<noteq> TOKEN_IDENTIFIER then Inl Exit1
               else
                 (let body2 = body1 @ token_to_str src (current p2);
                      p3 = parser_advance src p2;
                      p4 = skip_semantic src p3 in
                  Inr (p4, body2 @ '';'' @ NL)))
            else
              (let p2 = parser_advance src p1;
                   p3 = (if tok_type (current p2) = TOKEN_IDENTIFIER then parser_advance src p2 else p2);
                   p4 = skip_semantic src p3 in
               Inr (p4, body)))
         of
           Inl e \<Rightarrow> Inl e
         | Inr (p4, body') \<Rightarrow>
             Inr (if tok_type (current p4) = TOKEN_SEMICOLON then parser_advance src p4 else p4, body')))"

definition add_space_before :: "TokenType \<Rightarrow> TokenType \<Rightarrow> bool" where
  "add_space_before prev_token cur =
     (if prev_token \<noteq> TOKEN_EOF then
        (if cur = TOKEN_EQUAL \<and>
            (prev_token = TOKEN_PLUS \<or> prev_token = TOKEN_MINUS \<or>
             prev_token = TOKEN_ASTERISK \<or> prev_token = TOKEN_SLASH) then False
         else if cur = TOKEN_EQUAL \<or> cur = TOKEN_PLUS \<or> cur = TOKEN_MINUS \<or> cur = TOKEN_ASTERISK \<or>
                 cur = TOKEN_SLASH \<or> cur = TOKEN_LT \<or> cur = TOKEN_GT then True
         else if prev_token = TOKEN_EQUAL \<or> prev_token = TOKEN_PLUS \<or> prev_token = TOKEN_MINUS \<or>
                 prev_token = TOKEN_ASTERISK \<or> prev_token = TOKEN_SLASH \<or> prev_token = TOKEN_LT \<or>
                 prev_token = TOKEN_GT then True
         else if prev_token = TOKEN_IDENTIFIER \<and> cur = TOKEN_IDENTIFIER then True
         else if (token_enum prev_token \<ge> token_enum TOKEN_FLOAT \<and>
                  token_enum prev_token \<le> token_enum TOKEN_SAMPLERCUBE) \<and> cur = TOKEN_IDENTIFIER then True
         else if prev_token = TOKEN_COMMA then True
         else False)
      else False)"

definition body_copy_token :: "string \<Rightarrow> Token \<Rightarrow> string" where
  "body_copy_token src t =
     (if tok_type t = TOKEN_IDENTIFIER \<or> tok_type t = TOKEN_NUMBER then token_to_str src t
      else
        (let token_str = token_type_str (tok_type t) in
         if length token_str = 1 then [hd token_str] else token_to_str src t))"

text \<open>
  The local variables of \<open>parse_function_body_to_glsl\<close>: the parser, the output buffer
  (\<open>body_pos\<close> is its length), the brace depth and the type of the token copied last.
\<close>

record BodyState =
  bs_parser :: Parser
  bs_body :: string
  bs_depth :: nat
  bs_prev_token :: TokenType

text \<open>
  One pass through the loop of \<open>parse_function_body_to_glsl\<close>, before the size check at its
  end. The first component of the result tells whether the pass left the loop by \<open>break\<close>.
\<close>

definition body_iteration :: "string \<Rightarrow> bool \<Rightarrow> BodyState \<Rightarrow> error + (bool \<times> BodyState)" where
  "body_iteration src vertex st =
     (let p = bs_parser st; body = bs_body st; depth = bs_depth st; prev_token = bs_prev_token st in
      if tok_type (current p) = TOKEN_LBRACE then
        Inr (False, st\<lparr>bs_parser := parser_advance src p, bs_body := body @ ''{'', bs_depth := depth + 1\<rparr>)
      else if tok_type (current p) = TOKEN_RBRACE then
        (if depth > 0
         then Inr (False, st\<lparr>bs_parser := parser_advance src p, bs_body := body @ ''}'', bs_depth := depth - 1\<rparr>)
         else Inr (True, st))
      else if tok_type (current p) = TOKEN_OUT then
        (case body_out_declaration src vertex p body of
           Inl e \<Rightarrow> Inl e
         | Inr r \<Rightarrow> Inr (False, st\<lparr>bs_parser := fst r, bs_body := snd r\<rparr>))
      else
        (let body1 = (if add_space_before prev_token (tok_type (current p)) then body @ '' '' else body);
             body2 = body1 @ body_copy_token src (current p);
             body3 = (if tok_type (current p) = TOKEN_SEMICOLON then body2 @ NL @ ''    '' else body2) in
         Inr (False, st\<lparr>bs_parser := parser_advance src p, bs_body := body3,
                         bs_prev_token := tok_type (current p)\<rparr>)))"

lemma skip_semantic_fuel_le: "parser_fuel src (skip_semantic src p) \<le> parser_fuel src p"
proof -
  have a: "parser_fuel src (parser_advance src q) \<le> parser_fuel src q" for q
    by (rule parser_advance_fuel_le)
  show ?thesis
    by (simp add: skip_semantic_def Let_def a order_trans [OF a a])
qed

lemma body_out_declaration_fuel_less:
  assumes "body_out_declaration src vertex p body = Inr (p', body')"
    and "tok_type (current p) \<noteq> TOKEN_EOF"
  shows "parser_fuel src p' < parser_fuel src p"
proof -
  have a: "parser_fuel src (parser_advance src q) \<le> parser_fuel src q" for q
    by (rule parser_advance_fuel_le)
  have s: "parser_fuel src (skip_semantic src q) \<le> parser_fuel src q" for q
    by (rule skip_semantic_fuel_le)
  let ?p1 = "parser_advance src p"
  have 1: "parser_fuel src ?p1 < parser_fuel src p"
    using assms(2) by (rule parser_advance_fuel_less)
  have down: "parser_fuel src (parser_advance src q) < parser_fuel src p"
    "parser_fuel src (skip_semantic src q) < parser_fuel src p"
    if "parser_fuel src q < parser_fuel src p" for q
    using that a [of q] s [of q] by simp_all
  note d1 = down [OF 1]
  note d2 = down [OF d1(1)]
  note d3 = down [OF d2(1)]
  note d4 = down [OF d2(2)]
  note d5 = down [OF d3(2)]
  note d6 = down [OF d1(2)]
  from assms(1) 1 d1 d2 d3 d4 d5 d6 show ?thesis
    by (auto simp: body_out_declaration_def Let_def split: if_splits sum.splits)
qed

lemma body_iteration_fuel_less:
  assumes "body_iteration src vertex st = Inr (False, st')"
    and "tok_type (current (bs_parser st)) \<noteq> TOKEN_EOF"
  shows "parser_fuel src (bs_parser st') < parser_fuel src (bs_parser st)"
  using assms parser_advance_fuel_less [OF assms(2), of src]
  by (auto simp: body_iteration_def Let_def
        split: if_splits sum.splits dest: body_out_declaration_fuel_less)

function parse_function_body_loop :: "string \<Rightarrow> bool \<Rightarrow> BodyState \<Rightarrow> error + (string \<times> Parser)" where
  "parse_function_body_loop src vertex st =
     (if tok_type (current (bs_parser st)) \<noteq> TOKEN_RBRACE \<and>
         tok_type (current (bs_parser st)) \<noteq> TOKEN_EOF then
        (case body_iteration src vertex st of
           Inl e \<Rightarrow> Inl e
         | Inr r \<Rightarrow>
             if fst r then Inr (bs_body (snd r), bs_parser (snd r))
             else if length (bs_body (snd r)) \<ge> 4090 then Inl Exit1
             else parse_function_body_loop src vertex (snd r))
      else Inr (bs_body st, bs_parser st))"
  by pat_completeness auto
termination
proof (relation "measure (\<lambda>(src, vertex, st). parser_fuel src (bs_parser st))", goal_cases)
  case 1
  show ?case by simp
next
  case (2 src vertex st r)
  then have it: "body_iteration src vertex st = Inr (False, snd r)"
    by (cases r) simp
  from 2 have ne: "tok_type (current (bs_parser st)) \<noteq> TOKEN_EOF"
    by simp
  from body_iteration_fuel_less [OF it ne] show ?case
    by simp
qed

declare parse_function_body_loop.simps [simp del]

text \<open>
  The output buffer holds 4096 bytes. A pass that writes beyond them has no defined
  behaviour in C; it is followed at once by the size check, and the model gives such a run
  the result of that check.
\<close>

definition parse_function_body_to_glsl :: "string \<Rightarrow> Parser \<Rightarrow> bool \<Rightarrow> error + (string \<times> Parser)" where
  "parse_function_body_to_glsl src p vertex =
     parse_function_body_loop src vertex
       \<lparr>bs_parser = p, bs_body = [], bs_depth = 0, bs_prev_token = TOKEN_EOF\<rparr>"

lemma parse_function_body_loop_fuel_le:
  "parse_function_body_loop src vertex st = Inr (body', p') \<Longrightarrow>
     parser_fuel src p' \<le> parser_fuel src (bs_parser st)"
proof (induction src vertex st rule: parse_function_body_loop.induct)
  case (1 src vertex st)
  show ?case
  proof (cases "tok_type (current (bs_parser st)) \<noteq> TOKEN_RBRACE \<and>
         tok_type (current (bs_parser st)) \<noteq> TOKEN_EOF")
    case False
    with "1.prems" show ?thesis
      by (subst (asm) parse_function_body_loop.simps) auto
  next
    case True
    from "1.prems" True obtain r where it: "body_iteration src vertex st = Inr r"
      by (subst (asm) parse_function_body_loop.simps) (auto split: sum.splits)
    show ?thesis
    proof (cases "fst r")
      case brk: True
      with it have "snd r = st"
        by (cases r) (auto simp: body_iteration_def Let_def split: if_splits sum.splits)
      moreover from "1.prems" True it brk have "p' = bs_parser (snd r)"
        by (subst (asm) parse_function_body_loop.simps) auto
      ultimately show ?thesis by simp
    next
      case False
      with it have "body_iteration src vertex st = Inr (False, snd r)"
        by (cases r) simp
      with True have lt: "parser_fuel src (bs_parser (snd r)) < parser_fuel src (bs_parser st)"
        by (auto dest: body_iteration_fuel_less)
      from "1.prems" True it False have small: "\<not> 4090 \<le> length (bs_body (snd r))"
        and rec: "parse_function_body_loop src vertex (snd r) = Inr (body', p')"
        by (subst (asm) parse_function_body_loop.simps; auto split: if_splits)+
      from "1.IH" [OF True it False small rec] lt show ?thesis
        by simp
    qed
  qed
qed

section \<open>Dialect parsers\<close>

text \<open>
  A list under construction is the nodes linked so far and the state of the tail pointer.
  \<open>*ptr = node; ptr = &node->next;\<close> stores the node through the tail pointer and moves the
  pointer to the node's \<open>next\<close> field. When the node is null (a declaration that failed to
  parse) the new tail pointer is no address of the list, and the next store through it
  faults.
\<close>

type_synonym 'a linked = "'a list \<times> bool"

definition link_node :: "'a option \<Rightarrow> 'a linked \<Rightarrow> error + 'a linked" where
  "link_node node l =
     (if \<not> snd l then Inl Segfault
      else (case node of None \<Rightarrow> Inr (fst l, False) | Some x \<Rightarrow> Inr (fst l @ [x], True)))"

definition empty_list :: "'a linked" where
  "empty_list = ([], True)"

definition is_parameter_type :: "TokenType \<Rightarrow> bool" where
  "is_parameter_type ty \<longleftrightarrow>
     ty = TOKEN_FLOAT \<or> ty = TOKEN_VEC2 \<or> ty = TOKEN_VEC3 \<or> ty = TOKEN_VEC4 \<or> ty = TOKEN_MAT4 \<or>
     ty = TOKEN_SAMPLER2D \<or> ty = TOKEN_SAMPLERCUBE \<or> ty = TOKEN_IDENTIFIER"

text \<open>One parameter of a modern function: type, name and optional semantic.\<close>

definition parse_parameter :: "string \<Rightarrow> Parser \<Rightarrow> Parser" where
  "parse_parameter src p =
     (let p1 = parser_advance src p;
          p2 = snd (parser_expect src p1 TOKEN_IDENTIFIER) in
      if tok_type (current p2) = TOKEN_COLON
      then snd (parser_expect src (parser_advance src p2) TOKEN_IDENTIFIER)
      else p2)"

lemma parse_parameter_fuel_less:
  assumes "tok_type (current p) \<noteq> TOKEN_EOF"
  shows "parser_fuel src (parse_parameter src p) < parser_fuel src p"
proof -
  let ?p1 = "parser_advance src p"
  let ?p2 = "snd (parser_expect src ?p1 TOKEN_IDENTIFIER)"
  let ?p3 = "snd (parser_expect src (parser_advance src ?p2) TOKEN_IDENTIFIER)"
  have 1: "parser_fuel src ?p1 < parser_fuel src p"
    using assms by (rule parser_advance_fuel_less)
  have 2: "parser_fuel src ?p2 < parser_fuel src p"
    using parser_expect_fuel_le [of src ?p1 TOKEN_IDENTIFIER] 1 by simp
  have "parser_fuel src ?p3 \<le> parser_fuel src (parser_advance src ?p2)"
    by (rule parser_expect_fuel_le)
  also have "\<dots> \<le> parser_fuel src ?p2"
    by (rule parser_advance_fuel_le)
  finally have 3: "parser_fuel src ?p3 < parser_fuel src p"
    using 2 by simp
  from 2 3 show ?thesis
    by (simp add: parse_parameter_def Let_def)
qed

function parse_parameter_list :: "string \<Rightarrow> Parser \<Rightarrow> error + Parser" where
  "parse_parameter_list src p =
     (if tok_type (current p) \<noteq> TOKEN_RPAREN \<and> tok_type (current p) \<noteq> TOKEN_EOF then
        (if is_parameter_type (tok_type (current p)) then
           (let p1 = parse_parameter src p in
            if tok_type (current p1) = TOKEN_COMMA then parse_parameter_list src (parser_advance src p1)
            else if tok_type (current p1) = TOKEN_RPAREN then Inr p1
            else Inl Exit1)
         else Inl Exit1)
      else Inr p)"
  by pat_completeness auto
termination
proof (relation "measure (\<lambda>(src, p). parser_fuel src p)", goal_cases)
  case 1
  show ?case by simp
next
  case (2 src p p1)
  then have "parser_fuel src p1 < parser_fuel src p"
    by (simp add: parse_parameter_fuel_less)
  with parser_advance_fuel_le [of src p1] show ?case by simp
qed

declare parse_parameter_list.simps [simp del]

lemma parse_parameter_list_fuel_le:
  "parse_parameter_list src p = Inr p' \<Longrightarrow> parser_fuel src p' \<le> parser_fuel src p"
proof (induction src p rule: parse_parameter_list.induct)
  case (1 src p)
  show ?case
  proof (cases "tok_type (current p) \<noteq> TOKEN_RPAREN \<and> tok_type (current p) \<noteq> TOKEN_EOF")
    case False
    with "1.prems" show ?thesis
      by (subst (asm) parse_parameter_list.simps) auto
  next
    case True
    let ?p1 = "parse_parameter src p"
    from True have lt: "parser_fuel src ?p1 < parser_fuel src p"
      by (simp add: parse_parameter_fuel_less)
    from "1.prems" True have ty: "is_parameter_type (tok_type (current p))"
      by (subst (asm) parse_parameter_list.simps) (auto split: if_splits)
    show ?thesis
    proof (cases "tok_type (current ?p1) = TOKEN_COMMA")
      case comma: True
      from "1.prems" True ty comma
      have rec: "parse_parameter_list src (parser_advance src ?p1) = Inr p'"
        by (subst (asm) parse_parameter_list.simps) (simp add: Let_def)
      from "1.IH" [OF True ty refl comma rec] parser_advance_fuel_le [of src ?p1] lt
      show ?thesis by simp
    next
      case False
      from "1.prems" True ty False have "p' = ?p1"
        by (subst (asm) parse_parameter_list.simps) (auto simp: Let_def split: if_splits)
      with lt show ?thesis by simp
    qed
  qed
qed

definition parse_new_function :: "string \<Rightarrow> Parser \<Rightarrow> error + (FXFunction \<times> Parser)" where
  "parse_new_function src p =
     (let function_type = tok_type (current p);
          vertex = (function_type = TOKEN_VERTEX_SHADER);
          fragment = (function_type = TOKEN_FRAGMENT_SHADER);
          p1 = parser_advance src p;
          name = (if tok_type (current p1) = TOKEN_IDENTIFIER then token_to_str src (current p1)
                  else if vertex then ''vertex'' else ''fragment'');
          p2 = (if tok_type (current p1) = TOKEN_IDENTIFIER then parser_advance src p1 else p1);
          p3 = snd (parser_expect src p2 TOKEN_LPAREN) in
      case parse_parameter_list src p3 of
        Inl e \<Rightarrow> Inl e
      | Inr p4 \<Rightarrow>
          (let p5 = snd (parser_expect src p4 TOKEN_RPAREN);
               p6 = snd (parser_expect src p5 TOKEN_LBRACE) in
           case parse_function_body_to_glsl src p6 vertex of
             Inl e \<Rightarrow> Inl e
           | Inr (body_glsl, p7) \<Rightarrow>
               Inr (\<lparr>fn_name = name, is_vertex = vertex, is_fragment = fragment,
                     out_type = None, out_name = None,
                     statements = [\<lparr>stmt_text = body_glsl, stmt_length = length body_glsl,
                                    stmt_in_source = False\<rparr>]\<rparr>,
                    snd (parser_expect src p7 TOKEN_RBRACE))))"

lemma parse_new_function_fuel_le:
  assumes "parse_new_function src p = Inr (f, p')"
  shows "parser_fuel src p' \<le> parser_fuel src (parser_advance src p)"
proof -
  let ?p1 = "parser_advance src p"
  let ?p2 = "if tok_type (current ?p1) = TOKEN_IDENTIFIER then parser_advance src ?p1 else ?p1"
  let ?p3 = "snd (parser_expect src ?p2 TOKEN_LPAREN)"
  from assms obtain p4 where pl: "parse_parameter_list src ?p3 = Inr p4"
    by (auto simp: parse_new_function_def Let_def split: sum.splits)
  let ?p5 = "snd (parser_expect src p4 TOKEN_RPAREN)"
  let ?p6 = "snd (parser_expect src ?p5 TOKEN_LBRACE)"
  from assms pl obtain b p7 where bd: "parse_function_body_to_glsl src ?p6 (tok_type (current p) = TOKEN_VERTEX_SHADER) = Inr (b, p7)"
    and p': "p' = snd (parser_expect src p7 TOKEN_RBRACE)"
    by (auto simp: parse_new_function_def Let_def split: sum.splits)
  have "parser_fuel src p' \<le> parser_fuel src p7"
    unfolding p' by (rule parser_expect_fuel_le)
  also have "\<dots> \<le> parser_fuel src ?p6"
    using bd by (auto simp: parse_function_body_to_glsl_def dest: parse_function_body_loop_fuel_le)
  also have "\<dots> \<le> parser_fuel src ?p5" by (rule parser_expect_fuel_le)
  also have "\<dots> \<le> parser_fuel src p4" by (rule parser_expect_fuel_le)
  also have "\<dots> \<le> parser_fuel src ?p3" using pl by (rule parse_parameter_list_fuel_le)
  also have "\<dots> \<le> parser_fuel src ?p2" by (rule parser_expect_fuel_le)
  also have "\<dots> \<le> parser_fuel src ?p1" by (simp add: parser_advance_fuel_le)
  finally show ?thesis .
qed

lemma parse_new_function_fuel_less:
  assumes "parse_new_function src p = Inr (f, p')" and "tok_type (current p) \<noteq> TOKEN_EOF"
  shows "parser_fuel src p' < parser_fuel src p"
  using parse_new_function_fuel_le [OF assms(1)] parser_advance_fuel_less [OF assms(2), of src]
  by simp

text \<open>The local variables of the loop of \<open>parse_shader\<close>.\<close>

record ShaderBlock =
  sb_parser :: Parser
  sb_uniforms :: "FXUniform linked"
  sb_inputs :: "FXInput linked"
  sb_functions :: "FXFunction list"

text \<open>One pass through the loop of \<open>parse_shader\<close>.\<close>

definition shader_block_item :: "string \<Rightarrow> ShaderBlock \<Rightarrow> error + ShaderBlock" where
  "shader_block_item src st =
     (let p = sb_parser st in
      if tok_type (current p) = TOKEN_UNIFORM then
        (let u = parse_uniform src p in
         case link_node (fst u) (sb_uniforms st) of
           Inl e \<Rightarrow> Inl e
         | Inr us \<Rightarrow> Inr (st\<lparr>sb_parser := snd u, sb_uniforms := us\<rparr>))
      else if tok_type (current p) = TOKEN_INPUT then
        (let i = parse_input src p in
         case link_node (fst i) (sb_inputs st) of
           Inl e \<Rightarrow> Inl e
         | Inr ins \<Rightarrow> Inr (st\<lparr>sb_parser := snd i, sb_inputs := ins\<rparr>))
      else if tok_type (current p) = TOKEN_VOID then
        (case parse_function src p of
           Inl e \<Rightarrow> Inl e
         | Inr f \<Rightarrow> Inr (st\<lparr>sb_parser := snd f, sb_functions := sb_functions st @ [fst f]\<rparr>))
      else Inl Exit1)"

lemma shader_block_item_fuel_less:
  assumes "shader_block_item src st = Inr st'"
  shows "parser_fuel src (sb_parser st') < parser_fuel src (sb_parser st)"
proof -
  have f: "parse_function src (sb_parser st) = Inr r \<Longrightarrow> tok_type (current (sb_parser st)) = TOKEN_VOID \<Longrightarrow>
      parser_fuel src (snd r) < parser_fuel src (sb_parser st)" for r
    using parse_function_fuel_less [of src "sb_parser st" "fst r" "snd r"] by simp
  from assms show ?thesis
    by (auto simp: shader_block_item_def Let_def parse_uniform_fuel_less parse_input_fuel_less
          split: if_splits sum.splits dest: f)
qed

function parse_shader_loop :: "string \<Rightarrow> ShaderBlock \<Rightarrow> error + ShaderBlock" where
  "parse_shader_loop src st =
     (if tok_type (current (sb_parser st)) \<noteq> TOKEN_RBRACE \<and>
         tok_type (current (sb_parser st)) \<noteq> TOKEN_EOF then
        (case shader_block_item src st of
           Inl e \<Rightarrow> Inl e
         | Inr st' \<Rightarrow> parse_shader_loop src st')
      else Inr st)"
  by pat_completeness auto
termination
  by (relation "measure (\<lambda>(src, st). parser_fuel src (sb_parser st))")
     (auto dest: shader_block_item_fuel_less)

declare parse_shader_loop.simps [simp del]

lemma parse_shader_loop_fuel_le:
  "parse_shader_loop src st = Inr st' \<Longrightarrow>
     parser_fuel src (sb_parser st') \<le> parser_fuel src (sb_parser st)"
proof (induction src st rule: parse_shader_loop.induct)
  case (1 src st)
  show ?case
  proof (cases "tok_type (current (sb_parser st)) \<noteq> TOKEN_RBRACE \<and>
         tok_type (current (sb_parser st)) \<noteq> TOKEN_EOF")
    case False
    with "1.prems" show ?thesis
      by (subst (asm) parse_shader_loop.simps) auto
  next
    case True
    from "1.prems" True obtain st1 where it: "shader_block_item src st = Inr st1"
      and rec: "parse_shader_loop src st1 = Inr st'"
      by (subst (asm) parse_shader_loop.simps) (auto split: sum.splits)
    from "1.IH" [OF True it rec] shader_block_item_fuel_less [OF it] show ?thesis
      by simp
  qed
qed

text \<open>
  A legacy block. As in \<open>parse_function\<close>, the name is the text of the token that is
  current after the identifier has been consumed.
\<close>

definition parse_shader :: "string \<Rightarrow> Parser \<Rightarrow> error + (FXShader \<times> Parser)" where
  "parse_shader src p =
     (let p1 = snd (parser_expect src p TOKEN_SHADER);
          p2 = snd (parser_expect src p1 TOKEN_IDENTIFIER);
          name = token_to_str src (current p2);
          p3 = snd (parser_expect src p2 TOKEN_LBRACE) in
      case parse_shader_loop src
             \<lparr>sb_parser = p3, sb_uniforms = empty_list, sb_inputs = empty_list, sb_functions = []\<rparr> of
        Inl e \<Rightarrow> Inl e
      | Inr st \<Rightarrow>
          Inr (\<lparr>shader_name = name, uniforms = fst (sb_uniforms st), inputs = fst (sb_inputs st),
                fx_functions = sb_functions st\<rparr>,
               snd (parser_expect src (sb_parser st) TOKEN_RBRACE)))"

lemma parse_shader_fuel_less:
  assumes "parse_shader src p = Inr r" and "tok_type (current p) = TOKEN_SHADER"
  shows "parser_fuel src (snd r) < parser_fuel src p"
proof -
  let ?p1 = "snd (parser_expect src p TOKEN_SHADER)"
  let ?p2 = "snd (parser_expect src ?p1 TOKEN_IDENTIFIER)"
  let ?p3 = "snd (parser_expect src ?p2 TOKEN_LBRACE)"
  let ?st0 = "\<lparr>sb_parser = ?p3, sb_uniforms = empty_list, sb_inputs = empty_list, sb_functions = []\<rparr>"
  from assms(1) obtain st where lp: "parse_shader_loop src ?st0 = Inr st"
    and r: "snd r = snd (parser_expect src (sb_parser st) TOKEN_RBRACE)"
    by (auto simp: parse_shader_def Let_def split: sum.splits)
  have "parser_fuel src (snd r) \<le> parser_fuel src (sb_parser st)"
    unfolding r by (rule parser_expect_fuel_le)
  also have "\<dots> \<le> parser_fuel src ?p3"
    using parse_shader_loop_fuel_le [OF lp] by simp
  also have "\<dots> \<le> parser_fuel src ?p2" by (rule parser_expect_fuel_le)
  also have "\<dots> \<le> parser_fuel src ?p1" by (rule parser_expect_fuel_le)
  also have "\<dots> < parser_fuel src p"
    using assms(2) by (simp add: parser_expect_fuel_less)
  finally show ?thesis .
qed

text \<open>The declarations a standalone shader collects before its function.\<close>

record Declarations =
  d_parser :: Parser
  d_uniforms :: "FXUniform linked"
  d_inputs :: "FXInput linked"

text \<open>One pass through the declaration loop of \<open>parse_standalone_shader\<close>.\<close>

definition standalone_declaration :: "string \<Rightarrow> Declarations \<Rightarrow> error + Declarations" where
  "standalone_declaration src st =
     (let p = d_parser st in
      if tok_type (current p) = TOKEN_UNIFORM then
        (let u = parse_uniform src p in
         case link_node (fst u) (d_uniforms st) of
           Inl e \<Rightarrow> Inl e
         | Inr us \<Rightarrow> Inr (st\<lparr>d_parser := snd u, d_uniforms := us\<rparr>))
      else if tok_type (current p) = TOKEN_INPUT then
        (let i = parse_input src p in
         case link_node (fst i) (d_inputs st) of
           Inl e \<Rightarrow> Inl e
         | Inr ins \<Rightarrow> Inr (st\<lparr>d_parser := snd i, d_inputs := ins\<rparr>))
      else Inr st)"

lemma standalone_declaration_fuel_less:
  assumes "standalone_declaration src st = Inr st'"
    and "tok_type (current (d_parser st)) = TOKEN_UNIFORM \<or> tok_type (current (d_parser st)) = TOKEN_INPUT"
  shows "parser_fuel src (d_parser st') < parser_fuel src (d_parser st)"
  using assms
  by (auto simp: standalone_declaration_def Let_def parse_uniform_fuel_less parse_input_fuel_less
        split: if_splits sum.splits)

function standalone_declarations :: "string \<Rightarrow> Declarations \<Rightarrow> error + Declarations" where
  "standalone_declarations src st =
     (if tok_type (current (d_parser st)) = TOKEN_UNIFORM \<or>
         tok_type (current (d_parser st)) = TOKEN_INPUT then
        (case standalone_declaration src st of
           Inl e \<Rightarrow> Inl e
         | Inr st' \<Rightarrow> standalone_declarations src st')
      else Inr st)"
  by pat_completeness auto
termination
  by (relation "measure (\<lambda>(src, st). parser_fuel src (d_parser st))")
     (auto dest: standalone_declaration_fuel_less)

declare standalone_declarations.simps [simp del]

text \<open>
  A standalone block: the name from the type of the current token, the declarations in
  front of the function, the function.
\<close>

definition parse_standalone_shader :: "string \<Rightarrow> Parser \<Rightarrow> error + (FXShader \<times> Parser)" where
  "parse_standalone_shader src p =
     (let shader_type = tok_type (current p);
          name = (if shader_type = TOKEN_VERTEX_SHADER then ''vertex'' else ''fragment'') in
      case standalone_declarations src
             \<lparr>d_parser = p, d_uniforms = empty_list, d_inputs = empty_list\<rparr> of
        Inl e \<Rightarrow> Inl e
      | Inr st \<Rightarrow>
          (case parse_new_function src (d_parser st) of
             Inl e \<Rightarrow> Inl e
           | Inr f \<Rightarrow>
               Inr (\<lparr>shader_name = name, uniforms = fst (d_uniforms st), inputs = fst (d_inputs st),
                     fx_functions = [fst f]\<rparr>, snd f)))"

lemma parse_standalone_shader_fuel_less:
  assumes "parse_standalone_shader src p = Inr r"
    and "tok_type (current p) = TOKEN_VERTEX_SHADER \<or> tok_type (current p) = TOKEN_FRAGMENT_SHADER"
  shows "parser_fuel src (snd r) < parser_fuel src p"
proof -
  let ?st0 = "\<lparr>d_parser = p, d_uniforms = empty_list, d_inputs = empty_list\<rparr>"
  from assms(2) have d: "standalone_declarations src ?st0 = Inr ?st0"
    by (subst standalone_declarations.simps) auto
  from assms(1) d obtain f where nf: "parse_new_function src p = Inr f" and r: "snd r = snd f"
    by (auto simp: parse_standalone_shader_def Let_def split: sum.splits)
  from assms(2) have "tok_type (current p) \<noteq> TOKEN_EOF" by auto
  with parse_new_function_fuel_less [of src p "fst f" "snd f"] nf r show ?thesis
    by simp
qed

fun copy_uniform_list :: "FXUniform list \<Rightarrow> FXUniform list" where
  "copy_uniform_list [] = []"
| "copy_uniform_list (u # us) =
     \<lparr>uniform_type = uniform_type u, uniform_name = uniform_name u,
      uniform_strings = uniform_strings u\<rparr> # copy_uniform_list us"

fun copy_input_list :: "FXInput list \<Rightarrow> FXInput list" where
  "copy_input_list [] = []"
| "copy_input_list (i # is) =
     \<lparr>input_type = input_type i, input_name = input_name i,
      input_strings = input_strings i\<rparr> # copy_input_list is"

text \<open>The local variables of the loop of \<open>parse_shader_file\<close>.\<close>

record FileState =
  fs_parser :: Parser
  fs_shaders :: "FXShader list"
  pending_uniforms :: "FXUniform linked"
  pending_inputs :: "FXInput linked"

text \<open>
  One pass through the loop of \<open>parse_shader_file\<close>. After a standalone block a non-empty
  pending list replaces the list of the block by a copy of itself.
\<close>

definition top_level_item :: "string \<Rightarrow> FileState \<Rightarrow> error + FileState" where
  "top_level_item src st =
     (let p = fs_parser st in
      if tok_type (current p) = TOKEN_SHADER then
        (case parse_shader src p of
           Inl e \<Rightarrow> Inl e
         | Inr s \<Rightarrow> Inr (st\<lparr>fs_parser := snd s, fs_shaders := fs_shaders st @ [fst s]\<rparr>))
      else if tok_type (current p) = TOKEN_UNIFORM then
        (let u = parse_uniform src p in
         case link_node (fst u) (pending_uniforms st) of
           Inl e \<Rightarrow> Inl e
         | Inr us \<Rightarrow> Inr (st\<lparr>fs_parser := snd u, pending_uniforms := us\<rparr>))
      else if tok_type (current p) = TOKEN_INPUT then
        (let i = parse_input src p in
         case link_node (fst i) (pending_inputs st) of
           Inl e \<Rightarrow> Inl e
         | Inr ins \<Rightarrow> Inr (st\<lparr>fs_parser := snd i, pending_inputs := ins\<rparr>))
      else if tok_type (current p) = TOKEN_VERTEX_SHADER \<or> tok_type (current p) = TOKEN_FRAGMENT_SHADER then
        (case parse_standalone_shader src p of
           Inl e \<Rightarrow> Inl e
         | Inr r \<Rightarrow>
             (let s = fst r;
                  s1 = (if fst (pending_uniforms st) \<noteq> []
                        then s\<lparr>uniforms := copy_uniform_list (fst (pending_uniforms st))\<rparr> else s);
                  s2 = (if fst (pending_inputs st) \<noteq> []
                        then s1\<lparr>inputs := copy_input_list (fst (pending_inputs st))\<rparr> else s1) in
              Inr (st\<lparr>fs_parser := snd r, fs_shaders := fs_shaders st @ [s2]\<rparr>)))
      else Inl Exit1)"

lemma top_level_item_fuel_less:
  assumes "top_level_item src st = Inr st'"
  shows "parser_fuel src (fs_parser st') < parser_fuel src (fs_parser st)"
  using assms
  by (auto simp: top_level_item_def Let_def parse_uniform_fuel_less parse_input_fuel_less
        split: if_splits sum.splits
        dest: parse_shader_fuel_less parse_standalone_shader_fuel_less)

function parse_shader_file_loop :: "string \<Rightarrow> FileState \<Rightarrow> error + FileState" where
  "parse_shader_file_loop src st =
     (if tok_type (current (fs_parser st)) \<noteq> TOKEN_EOF then
        (case top_level_item src st of
           Inl e \<Rightarrow> Inl e
         | Inr st' \<Rightarrow> parse_shader_file_loop src st')
      else Inr st)"
  by pat_completeness auto
termination
  by (relation "measure (\<lambda>(src, st). parser_fuel src (fs_parser st))")
     (auto dest: top_level_item_fuel_less)

declare parse_shader_file_loop.simps [simp del]

definition parse_shader_file :: "string \<Rightarrow> Parser \<Rightarrow> error + FXShader list" where
  "parse_shader_file src p =
     (case parse_shader_file_loop src
             \<lparr>fs_parser = parser_advance src p, fs_shaders = [],
              pending_uniforms = empty_list, pending_inputs = empty_list\<rparr> of
        Inl e \<Rightarrow> Inl e
      | Inr st \<Rightarrow> Inr (fs_shaders st))"

section \<open>Code generation\<close>

text \<open>
  An open output file is the text written to it so far; \<open>fprintf\<close> appends. \<open>format_d\<close> is
  the conversion \<open>%d\<close> of a value that is never negative.
\<close>

definition digit_char :: "nat \<Rightarrow> char" where
  "digit_char n = ''0123456789'' ! n"

function format_d :: "nat \<Rightarrow> string" where
  "format_d n = (if n < 10 then [digit_char n] else format_d (n div 10) @ [digit_char (n mod 10)])"
  by pat_completeness auto
termination
  by (relation "measure (\<lambda>n. n)") auto

declare format_d.simps [simp del]

definition write_glsl_header :: "string \<Rightarrow> string" where
  "write_glsl_header f = f @ ''#version 330 core'' @ NL @ ''precision highp float;'' @ NL @ NL"

fun write_uniforms_loop :: "string \<Rightarrow> FXUniform list \<Rightarrow> string" where
  "write_uniforms_loop f [] = f"
| "write_uniforms_loop f (u # us) =
     write_uniforms_loop (f @ ''uniform '' @ uniform_type u @ '' '' @ uniform_name u @ '';'' @ NL) us"

definition write_uniforms :: "string \<Rightarrow> FXUniform list \<Rightarrow> string" where
  "write_uniforms f us =
     (let f1 = write_uniforms_loop f us in if us \<noteq> [] then f1 @ NL else f1)"

fun write_inputs_loop :: "string \<Rightarrow> FXInput list \<Rightarrow> bool \<Rightarrow> nat \<Rightarrow> string" where
  "write_inputs_loop f [] vertex location = f"
| "write_inputs_loop f (i # is) vertex location =
     (if vertex then
        write_inputs_loop
          (f @ ''layout(location = '' @ format_d location @ '') in '' @ input_type i @ '' '' @
             input_name i @ '';'' @ NL)
          is vertex (location + 1)
      else
        write_inputs_loop (f @ ''in '' @ input_type i @ '' '' @ input_name i @ '';'' @ NL)
          is vertex location)"

definition write_inputs :: "string \<Rightarrow> FXInput list \<Rightarrow> bool \<Rightarrow> string" where
  "write_inputs f ins vertex =
     (let f1 = write_inputs_loop f ins vertex 0 in if ins \<noteq> [] then f1 @ NL else f1)"

definition write_vertex_outputs_as_fragment_inputs :: "string \<Rightarrow> string" where
  "write_vertex_outputs_as_fragment_inputs f =
     f @ ''in vec3 v_normal;'' @ NL @ ''in vec3 v_position;'' @ NL @ ''in vec2 v_texCoord;'' @ NL @ NL"

text \<open>The text of the first statement of a function, when it has one.\<close>

definition statements_text :: "FXFunction \<Rightarrow> string" where
  "statements_text fn = (case statements fn of [] \<Rightarrow> [] | s # _ \<Rightarrow> stmt_text s)"

definition write_function :: "string \<Rightarrow> FXFunction \<Rightarrow> FXInput list \<Rightarrow> string" where
  "write_function f fn ins =
     (if is_vertex fn then
        f @ ''void main() {'' @ NL @ statements_text fn @ ''}'' @ NL
      else if is_fragment fn then
        f @ ''out vec4 fragColor;'' @ NL @ NL @ ''void main() {'' @ NL @ statements_text fn @ ''}'' @ NL
      else f)"

text \<open>
  The search loop of \<open>generate_glsl\<close>: it runs over the whole list and overwrites
  \<open>vertex_fn\<close> and \<open>fragment_fn\<close> at every function of the stage.
\<close>

fun find_functions ::
  "FXFunction list \<Rightarrow> FXFunction option \<Rightarrow> FXFunction option \<Rightarrow> FXFunction option \<times> FXFunction option" where
  "find_functions [] vertex_fn fragment_fn = (vertex_fn, fragment_fn)"
| "find_functions (fn # fns) vertex_fn fragment_fn =
     find_functions fns
       (if is_vertex fn then Some fn else vertex_fn)
       (if is_fragment fn then Some fn else fragment_fn)"

text \<open>
  The files written so far, oldest first, each with its path and its text. \<open>writable\<close> tells
  for which paths \<open>fopen(path, "w")\<close> succeeds. A path is formatted by \<open>snprintf\<close> into a
  buffer of 256 bytes, which keeps its first 255 bytes. The first component of a result is
  the error that stopped the process, if any.
\<close>

type_synonym files = "(string \<times> string) list"

definition snprintf_256 :: "string \<Rightarrow> string" where
  "snprintf_256 s = take 255 s"

definition vertex_text :: "FXShader \<Rightarrow> FXFunction \<Rightarrow> string" where
  "vertex_text shader fn =
     write_function
       (write_inputs (write_uniforms (write_glsl_header []) (uniforms shader)) (inputs shader) True)
       fn (inputs shader)"

definition fragment_text :: "FXShader \<Rightarrow> FXFunction \<Rightarrow> string" where
  "fragment_text shader fn =
     write_function
       (write_vertex_outputs_as_fragment_inputs
          (write_uniforms (write_glsl_header []) (uniforms shader)))
       fn (inputs shader)"

definition write_file :: "(string \<Rightarrow> bool) \<Rightarrow> string \<Rightarrow> string \<Rightarrow> files \<Rightarrow> error option \<times> files" where
  "write_file writable path text fs =
     (if \<not> writable path then (Some Exit1, fs) else (None, fs @ [(path, text)]))"

definition generate_glsl ::
  "(string \<Rightarrow> bool) \<Rightarrow> FXShader \<Rightarrow> string \<Rightarrow> files \<Rightarrow> error option \<times> files" where
  "generate_glsl writable shader output_path fs =
     (let vert_path = snprintf_256 (output_path @ ''.vert.glsl'');
          frag_path = snprintf_256 (output_path @ ''.frag.glsl'');
          found = find_functions (fx_functions shader) None None;
          r1 = (case fst found of
                  None \<Rightarrow> (None, fs)
                | Some vertex_fn \<Rightarrow> write_file writable vert_path (vertex_text shader vertex_fn) fs) in
      if fst r1 \<noteq> None then r1
      else
        (case snd found of
           None \<Rightarrow> r1
         | Some fragment_fn \<Rightarrow>
             write_file writable frag_path (fragment_text shader fragment_fn) (snd r1)))"

fun metadata_uniforms :: "string \<Rightarrow> FXUniform list \<Rightarrow> string" where
  "metadata_uniforms f [] = f"
| "metadata_uniforms f (u # us) =
     metadata_uniforms (f @ ''uniform '' @ uniform_type u @ '' '' @ uniform_name u @ NL) us"

fun metadata_inputs :: "string \<Rightarrow> FXInput list \<Rightarrow> string" where
  "metadata_inputs f [] = f"
| "metadata_inputs f (i # is) =
     metadata_inputs (f @ ''input '' @ input_type i @ '' '' @ input_name i @ NL) is"

definition metadata_text :: "FXShader \<Rightarrow> string" where
  "metadata_text shader =
     (let f1 = [] @ ''shader '' @ shader_name shader @ NL;
          f2 = f1 @ ''uniforms '' @ format_d 0 @ NL;
          f3 = metadata_uniforms f2 (uniforms shader);
          f4 = f3 @ ''inputs '' @ format_d 0 @ NL in
      metadata_inputs f4 (inputs shader))"

definition generate_metadata ::
  "(string \<Rightarrow> bool) \<Rightarrow> FXShader \<Rightarrow> string \<Rightarrow> files \<Rightarrow> error option \<times> files" where
  "generate_metadata writable shader output_path fs =
     write_file writable (snprintf_256 (output_path @ ''.meta'')) (metadata_text shader) fs"

section \<open>The driver\<close>

definition output_path :: "string \<Rightarrow> FXShader \<Rightarrow> string" where
  "output_path argv1 s = snprintf_256 (argv1 @ ''_'' @ shader_name s)"

text \<open>The loop of \<open>main\<close> over the parsed shaders.\<close>

fun generate_all :: "(string \<Rightarrow> bool) \<Rightarrow> string \<Rightarrow> FXShader list \<Rightarrow> files \<Rightarrow> error option \<times> files" where
  "generate_all writable argv1 [] fs = (None, fs)"
| "generate_all writable argv1 (s # ss) fs =
     (let r1 = generate_glsl writable s (output_path argv1 s) fs in
      if fst r1 \<noteq> None then r1
      else
        (let r2 = generate_metadata writable s (output_path argv1 s) (snd r1) in
         if fst r2 \<noteq> None then r2
         else generate_all writable argv1 ss (snd r2)))"

text \<open>
  \<open>main\<close> declares the parser without setting its current token; \<open>parse_shader_file\<close>
  loads the first token before it reads it.
\<close>

definition initial_parser :: Parser where
  "initial_parser =
     \<lparr>p_lex = lexer_init,
      current = \<lparr>tok_type = TOKEN_EOF, tok_text = 0, tok_length = 0, tok_line = 0, tok_col = 0\<rparr>\<rparr>"

text \<open>
  The clean-up at the end of \<open>main\<close>. \<open>cleanup_shader\<close> releases, for every shader in turn,
  the two strings of each uniform and of each input, the text of each statement of each
  function, and the names and nodes. \<open>freed\<close> holds the pairs of declaration strings
  released so far. Releasing a pair a second time, which happens when two standalone
  shaders hold copies of the same pending declaration, and releasing the text of a legacy
  statement, which is an address inside the source buffer, are calls of \<open>free\<close> on
  a pointer that is no live block.
\<close>

definition free_strings :: "nat \<Rightarrow> nat list \<Rightarrow> error + nat list" where
  "free_strings b freed = (if b \<in> set freed then Inl Invalid_free else Inr (b # freed))"

fun cleanup_uniforms :: "FXUniform list \<Rightarrow> nat list \<Rightarrow> error + nat list" where
  "cleanup_uniforms [] freed = Inr freed"
| "cleanup_uniforms (u # us) freed =
     (case free_strings (uniform_strings u) freed of
        Inl e \<Rightarrow> Inl e
      | Inr freed1 \<Rightarrow> cleanup_uniforms us freed1)"

fun cleanup_inputs :: "FXInput list \<Rightarrow> nat list \<Rightarrow> error + nat list" where
  "cleanup_inputs [] freed = Inr freed"
| "cleanup_inputs (i # is) freed =
     (case free_strings (input_strings i) freed of
        Inl e \<Rightarrow> Inl e
      | Inr freed1 \<Rightarrow> cleanup_inputs is freed1)"

fun cleanup_statements :: "FXStatement list \<Rightarrow> error option" where
  "cleanup_statements [] = None"
| "cleanup_statements (stmt # stmts) =
     (if stmt_in_source stmt then Some Invalid_free else cleanup_statements stmts)"

fun cleanup_functions :: "FXFunction list \<Rightarrow> error option" where
  "cleanup_functions [] = None"
| "cleanup_functions (fn # fns) =
     (case cleanup_statements (statements fn) of
        Some e \<Rightarrow> Some e
      | None \<Rightarrow> cleanup_functions fns)"

definition cleanup_shader :: "FXShader \<Rightarrow> nat list \<Rightarrow> error + nat list" where
  "cleanup_shader shader freed =
     (case cleanup_uniforms (uniforms shader) freed of
        Inl e \<Rightarrow> Inl e
      | Inr freed1 \<Rightarrow>
          (case cleanup_inputs (inputs shader) freed1 of
             Inl e \<Rightarrow> Inl e
           | Inr freed2 \<Rightarrow>
               (case cleanup_functions (fx_functions shader) of
                  Some e \<Rightarrow> Inl e
                | None \<Rightarrow> Inr freed2)))"

text \<open>The clean-up loop of \<open>main\<close> over the parsed shaders.\<close>

fun cleanup_all :: "FXShader list \<Rightarrow> nat list \<Rightarrow> error option" where
  "cleanup_all [] freed = None"
| "cleanup_all (s # ss) freed =
     (case cleanup_shader s freed of
        Inl e \<Rightarrow> Some e
      | Inr freed1 \<Rightarrow> cleanup_all ss freed1)"

text \<open>
  \<open>fxc_main argv1 file writable\<close> is a run of the compiler on the path \<open>argv1\<close>, where
  \<open>file\<close> is the bytes of the input file (\<open>None\<close> when it cannot be opened). The lexer sees
  the buffer as a C string, that is, up to its first NUL byte. The result is the error that
  stopped the run, if any, and the files written. Every file is closed before the
  clean-up starts, so a run that is stopped in the clean-up has written all its files.
\<close>

definition fxc_main :: "string \<Rightarrow> string option \<Rightarrow> (string \<Rightarrow> bool) \<Rightarrow> error option \<times> files" where
  "fxc_main argv1 file writable =
     (case file of
        None \<Rightarrow> (Some Exit1, [])
      | Some bytes \<Rightarrow>
          (let src = takeWhile (\<lambda>c. c \<noteq> NUL) bytes in
           case parse_shader_file src initial_parser of
             Inl e \<Rightarrow> (Some e, [])
           | Inr shaders \<Rightarrow>
               if shaders = [] then (Some Exit1, [])
               else
                 (let generated = generate_all writable argv1 shaders [] in
                  if fst generated \<noteq> None then generated
                  else (cleanup_all shaders [], snd generated))))"

section \<open>Notions of the specification\<close>

text \<open>
  The pattern \<open>[0-9]+(\.[0-9]+)?\<close> as the specification words it: digits, then
  optionally a dot and at least one more digit; and the pattern \<open>[0-9]+(\.[0-9]*)?\<close>,
  where the digits after the dot may be missing.
\<close>

definition spec_number_literal :: "string \<Rightarrow> bool" where
  "spec_number_literal s \<longleftrightarrow>
     takeWhile is_digit s \<noteq> [] \<and>
     (case dropWhile is_digit s of
        [] \<Rightarrow> True
      | c # frac \<Rightarrow> c = CHR ''.'' \<and> frac \<noteq> [] \<and> list_all is_digit frac)"

definition lexed_number_literal :: "string \<Rightarrow> bool" where
  "lexed_number_literal s \<longleftrightarrow>
     takeWhile is_digit s \<noteq> [] \<and>
     (case dropWhile is_digit s of
        [] \<Rightarrow> True
      | c # frac \<Rightarrow> c = CHR ''.'' \<and> list_all is_digit frac)"

text \<open>
  The function of a stage that a list of functions offers to the generator: the selection
  rule as the specification words it (the first match), and the last match.
\<close>

definition first_of_stage :: "(FXFunction \<Rightarrow> bool) \<Rightarrow> FXFunction list \<Rightarrow> FXFunction option" where
  "first_of_stage stage fns = (case filter stage fns of [] \<Rightarrow> None | fn # _ \<Rightarrow> Some fn)"

definition last_of_stage :: "(FXFunction \<Rightarrow> bool) \<Rightarrow> FXFunction list \<Rightarrow> FXFunction option" where
  "last_of_stage stage fns = (case filter stage fns of [] \<Rightarrow> None | fn # rest \<Rightarrow> Some (last (fn # rest)))"

text \<open>
  A function of at most one stage.
\<close>

definition one_stage :: "FXFunction \<Rightarrow> bool" where
  "one_stage fn \<longleftrightarrow> \<not> (is_vertex fn \<and> is_fragment fn)"



text \<open>
  The lines of a text file, each followed by a newline; the declaration line of a uniform
  in a GLSL file; the declaration line of the vertex stage for the input at position
  \<open>i\<close>; the lines of the manifest for a uniform and for an input.
\<close>

definition unlines :: "string list \<Rightarrow> string" where
  "unlines ls = concat (map (\<lambda>l. l @ NL) ls)"

definition uniform_line :: "FXUniform \<Rightarrow> string" where
  "uniform_line u = ''uniform '' @ uniform_type u @ '' '' @ uniform_name u @ '';''"

definition layout_line :: "nat \<Rightarrow> FXInput \<Rightarrow> string" where
  "layout_line i inp =
     ''layout(location = '' @ format_d i @ '') in '' @ input_type inp @ '' '' @ input_name inp @ '';''"

definition metadata_uniform_line :: "FXUniform \<Rightarrow> string" where
  "metadata_uniform_line u = ''uniform '' @ uniform_type u @ '' '' @ uniform_name u"

definition metadata_input_line :: "FXInput \<Rightarrow> string" where
  "metadata_input_line i = ''input '' @ input_type i @ '' '' @ input_name i"

text \<open>
  Every output file can be opened.
\<close>

definition all_writable :: "string \<Rightarrow> bool" where
  "all_writable path = True"

text \<open>
  The texts one shader definition gives rise to, in the order the driver writes them: the
  vertex text when a function is selected for that stage, the fragment text likewise, and
  the manifest. The files of one shader definition when every output file can be opened:
  these texts with their paths.
\<close>

definition shader_texts :: "FXShader \<Rightarrow> string list" where
  "shader_texts s =
     (case last_of_stage is_vertex (fx_functions s) of None \<Rightarrow> [] | Some fn \<Rightarrow> [vertex_text s fn]) @
     (case last_of_stage is_fragment (fx_functions s) of None \<Rightarrow> [] | Some fn \<Rightarrow> [fragment_text s fn]) @
     [metadata_text s]"

definition shader_files :: "string \<Rightarrow> FXShader \<Rightarrow> files" where
  "shader_files argv1 s =
     (case last_of_stage is_vertex (fx_functions s) of
        None \<Rightarrow> []
      | Some fn \<Rightarrow> [(snprintf_256 (output_path argv1 s @ ''.vert.glsl''), vertex_text s fn)]) @
     (case last_of_stage is_fragment (fx_functions s) of
        None \<Rightarrow> []
      | Some fn \<Rightarrow> [(snprintf_256 (output_path argv1 s @ ''.frag.glsl''), fragment_text s fn)]) @
     [(snprintf_256 (output_path argv1 s @ ''.meta''), metadata_text s)]"

section \<open>Example inputs\<close>

text \<open>
  A modern source with a top-level uniform, a named vertex block, a top-level input and an
  anonymous fragment block; its two functions and the two shader definitions it parses
  to.
\<close>

definition modern_source :: string where
  "modern_source = ''uniform mat4 m; vertex_shader main_vs(){} input vec2 uv; fragment_shader(){}''"

definition modern_vertex_function :: FXFunction where
  "modern_vertex_function =
     \<lparr>fn_name = ''main_vs'', is_vertex = True, is_fragment = False, out_type = None,
      out_name = None, statements = [\<lparr>stmt_text = [], stmt_length = 0, stmt_in_source = False\<rparr>]\<rparr>"

definition modern_fragment_function :: FXFunction where
  "modern_fragment_function =
     \<lparr>fn_name = ''fragment'', is_vertex = False, is_fragment = True, out_type = None,
      out_name = None, statements = [\<lparr>stmt_text = [], stmt_length = 0, stmt_in_source = False\<rparr>]\<rparr>"

definition modern_vertex_shader :: FXShader where
  "modern_vertex_shader =
     \<lparr>shader_name = ''vertex'',
      uniforms = [\<lparr>uniform_type = ''mat4'', uniform_name = ''m'', uniform_strings = 8\<rparr>],
      inputs = [],
      fx_functions = [modern_vertex_function]\<rparr>"

definition modern_fragment_shader :: FXShader where
  "modern_fragment_shader =
     \<lparr>shader_name = ''fragment'',
      uniforms = [\<lparr>uniform_type = ''mat4'', uniform_name = ''m'', uniform_strings = 8\<rparr>],
      inputs = [\<lparr>input_type = ''vec2'', input_name = ''uv'', input_strings = 48\<rparr>],
      fx_functions = [modern_fragment_function]\<rparr>"

text \<open>
  The parser of \<open>modern_source\<close> where the current token is \<open>vertex_shader\<close>, the
  \<open>input\<close> after the vertex block, \<open>fragment_shader\<close>, and the end of the input; what each
  block parses to on its own.
\<close>

definition modern_at_vertex :: Parser where
  "modern_at_vertex =
     \<lparr>p_lex = \<lparr>lex_pos = 29, lex_line = 1, lex_col = 30\<rparr>,
      current = \<lparr>tok_type = TOKEN_VERTEX_SHADER, tok_text = 16, tok_length = 13,
                 tok_line = 1, tok_col = 17\<rparr>\<rparr>"

definition modern_at_input :: Parser where
  "modern_at_input =
     \<lparr>p_lex = \<lparr>lex_pos = 47, lex_line = 1, lex_col = 48\<rparr>,
      current = \<lparr>tok_type = TOKEN_INPUT, tok_text = 42, tok_length = 5, tok_line = 1, tok_col = 43\<rparr>\<rparr>"

definition modern_at_fragment :: Parser where
  "modern_at_fragment =
     \<lparr>p_lex = \<lparr>lex_pos = 72, lex_line = 1, lex_col = 73\<rparr>,
      current = \<lparr>tok_type = TOKEN_FRAGMENT_SHADER, tok_text = 57, tok_length = 15,
                 tok_line = 1, tok_col = 58\<rparr>\<rparr>"

definition modern_at_end :: Parser where
  "modern_at_end =
     \<lparr>p_lex = \<lparr>lex_pos = 76, lex_line = 1, lex_col = 77\<rparr>,
      current = \<lparr>tok_type = TOKEN_EOF, tok_text = 76, tok_length = 0, tok_line = 1, tok_col = 77\<rparr>\<rparr>"

definition modern_vertex_local :: FXShader where
  "modern_vertex_local =
     \<lparr>shader_name = ''vertex'', uniforms = [], inputs = [],
      fx_functions = [modern_vertex_function]\<rparr>"

definition modern_fragment_local :: FXShader where
  "modern_fragment_local =
     \<lparr>shader_name = ''fragment'', uniforms = [], inputs = [],
      fx_functions = [modern_fragment_function]\<rparr>"




text \<open>
  A legacy source whose only function is of neither stage, and the shader definition it
  parses to.
\<close>

definition helper_source :: string where
  "helper_source = ''shader S { uniform vec3 c; void helper() { } }''"

definition helper_shader :: FXShader where
  "helper_shader =
     \<lparr>shader_name = ''{'',
      uniforms = [\<lparr>uniform_type = ''vec3'', uniform_name = ''c'', uniform_strings = 19\<rparr>],
      inputs = [],
      fx_functions =
        [\<lparr>fn_name = ''('', is_vertex = False, is_fragment = False, out_type = None,
          out_name = None, statements = [\<lparr>stmt_text = ''} }'', stmt_length = 0, stmt_in_source = True\<rparr>]\<rparr>]\<rparr>"

text \<open>
  A modern source in which each block has a uniform and an input written right before
  it; the declarations, the two functions and the two shader definitions it parses to.
\<close>

definition local_source :: string where
  "local_source =
     ''uniform mat4 m; input vec3 pos; vertex_shader(){} uniform vec3 c; input vec2 uv; fragment_shader(){}''"

definition local_m :: FXUniform where
  "local_m = \<lparr>uniform_type = ''mat4'', uniform_name = ''m'', uniform_strings = 8\<rparr>"

definition local_c :: FXUniform where
  "local_c = \<lparr>uniform_type = ''vec3'', uniform_name = ''c'', uniform_strings = 58\<rparr>"

definition local_pos :: FXInput where
  "local_pos = \<lparr>input_type = ''vec3'', input_name = ''pos'', input_strings = 22\<rparr>"

definition local_uv :: FXInput where
  "local_uv = \<lparr>input_type = ''vec2'', input_name = ''uv'', input_strings = 72\<rparr>"

definition local_vertex_function :: FXFunction where
  "local_vertex_function =
     \<lparr>fn_name = ''vertex'', is_vertex = True, is_fragment = False, out_type = None,
      out_name = None, statements = [\<lparr>stmt_text = [], stmt_length = 0, stmt_in_source = False\<rparr>]\<rparr>"

definition local_vertex_shader :: FXShader where
  "local_vertex_shader =
     \<lparr>shader_name = ''vertex'', uniforms = [local_m], inputs = [local_pos],
      fx_functions = [local_vertex_function]\<rparr>"

definition local_fragment_shader :: FXShader where
  "local_fragment_shader =
     \<lparr>shader_name = ''fragment'', uniforms = [local_m, local_c], inputs = [local_pos, local_uv],
      fx_functions = [modern_fragment_function]\<rparr>"

text \<open>
  The parser of \<open>local_source\<close> where the current token is the first \<open>uniform\<close>,
  \<open>vertex_shader\<close>, the second \<open>uniform\<close>, \<open>fragment_shader\<close>, and the end of the input.
\<close>

definition local_at_start :: Parser where
  "local_at_start =
     \<lparr>p_lex = \<lparr>lex_pos = 7, lex_line = 1, lex_col = 8\<rparr>,
      current = \<lparr>tok_type = TOKEN_UNIFORM, tok_text = 0, tok_length = 7, tok_line = 1, tok_col = 1\<rparr>\<rparr>"

definition local_at_vertex :: Parser where
  "local_at_vertex =
     \<lparr>p_lex = \<lparr>lex_pos = 45, lex_line = 1, lex_col = 46\<rparr>,
      current = \<lparr>tok_type = TOKEN_VERTEX_SHADER, tok_text = 32, tok_length = 13,
                 tok_line = 1, tok_col = 33\<rparr>\<rparr>"

definition local_at_uniform :: Parser where
  "local_at_uniform =
     \<lparr>p_lex = \<lparr>lex_pos = 57, lex_line = 1, lex_col = 58\<rparr>,
      current = \<lparr>tok_type = TOKEN_UNIFORM, tok_text = 50, tok_length = 7, tok_line = 1,
                 tok_col = 51\<rparr>\<rparr>"

definition local_at_fragment :: Parser where
  "local_at_fragment =
     \<lparr>p_lex = \<lparr>lex_pos = 96, lex_line = 1, lex_col = 97\<rparr>,
      current = \<lparr>tok_type = TOKEN_FRAGMENT_SHADER, tok_text = 81, tok_length = 15,
                 tok_line = 1, tok_col = 82\<rparr>\<rparr>"

definition local_at_end :: Parser where
  "local_at_end =
     \<lparr>p_lex = \<lparr>lex_pos = 100, lex_line = 1, lex_col = 101\<rparr>,
      current = \<lparr>tok_type = TOKEN_EOF, tok_text = 100, tok_length = 0, tok_line = 1,
                 tok_col = 101\<rparr>\<rparr>"

text \<open>
  The state of the file loop on \<open>local_source\<close> at the start, after the vertex block and
  at the end; the declarations that the declaration loop of \<open>parse_standalone_shader\<close>
  reads from the start and from the second \<open>uniform\<close>.
\<close>

definition local_start :: FileState where
  "local_start =
     \<lparr>fs_parser = local_at_start, fs_shaders = [],
      pending_uniforms = empty_list, pending_inputs = empty_list\<rparr>"

definition local_file_state :: FileState where
  "local_file_state =
     \<lparr>fs_parser = local_at_uniform, fs_shaders = [local_vertex_shader],
      pending_uniforms = ([local_m], True), pending_inputs = ([local_pos], True)\<rparr>"

definition local_final_state :: FileState where
  "local_final_state =
     \<lparr>fs_parser = local_at_end, fs_shaders = [local_vertex_shader, local_fragment_shader],
      pending_uniforms = ([local_m, local_c], True),
      pending_inputs = ([local_pos, local_uv], True)\<rparr>"

definition local_vertex_declarations :: Declarations where
  "local_vertex_declarations =
     \<lparr>d_parser = local_at_vertex, d_uniforms = ([local_m], True), d_inputs = ([local_pos], True)\<rparr>"

definition local_fragment_declarations :: Declarations where
  "local_fragment_declarations =
     \<lparr>d_parser = local_at_fragment, d_uniforms = ([local_c], True), d_inputs = ([local_uv], True)\<rparr>"

text \<open>A file system in which the fragment file of \<open>a.fx\<close> cannot be opened.\<close>

definition no_fragment_file :: "string \<Rightarrow> bool" where
  "no_fragment_file path \<longleftrightarrow> path \<noteq> ''a.fx_fragment.frag.glsl''"

section \<open>Properties of the lexer\<close>

lemma is_digit_NUL [simp]: "\<not> is_digit NUL"
  by (simp add: is_digit_def NUL_def less_eq_char_def)

lemma is_digit_dot [simp]: "\<not> is_digit CHR ''.''"
  by (simp add: is_digit_def less_eq_char_def)

lemma lexer_next_digits_pos:
  "lex_pos (lexer_next_digits src lx) =
     lex_pos lx + length (takeWhile is_digit (drop (lex_pos lx) src))"
proof (induction src lx rule: lexer_next_digits.induct)
  case (1 src lx)
  show ?case
  proof (cases "is_digit (char_at src (lex_pos lx))")
    case True
    then have lt: "lex_pos lx < length src"
      by (auto simp: char_at_def split: if_splits)
    then have d: "drop (lex_pos lx) src = src ! lex_pos lx # drop (Suc (lex_pos lx)) src"
      by (simp add: Cons_nth_drop_Suc)
    from True lt have dg: "is_digit (src ! lex_pos lx)"
      by (simp add: char_at_def)
    from 1 [OF True] True d dg show ?thesis
      by (subst lexer_next_digits.simps) simp
  next
    case False
    show ?thesis
    proof (cases "lex_pos lx < length src")
      case True
      then have d: "drop (lex_pos lx) src = src ! lex_pos lx # drop (Suc (lex_pos lx)) src"
        by (simp add: Cons_nth_drop_Suc)
      from False True have "\<not> is_digit (src ! lex_pos lx)"
        by (simp add: char_at_def)
      with False d show ?thesis
        by (subst lexer_next_digits.simps) simp
    next
      case nlt: False
      with False show ?thesis
        by (subst lexer_next_digits.simps) simp
    qed
  qed
qed

lemma char_at_drop: "char_at src i = (case drop i src of [] \<Rightarrow> NUL | c # _ \<Rightarrow> c)"
  by (cases "i < length src") (simp_all add: char_at_def Cons_nth_drop_Suc [symmetric])

lemma lexed_number_int:
  assumes "a \<noteq> []" "list_all is_digit a"
  shows "lexed_number_literal a"
proof -
  from assms have tw: "takeWhile is_digit a = a" and dw: "dropWhile is_digit a = []"
    by (simp_all add: list_all_iff)
  from assms(1) show ?thesis
    by (simp add: lexed_number_literal_def tw dw)
qed

lemma lexed_number_frac:
  assumes "a \<noteq> []" "list_all is_digit a" "list_all is_digit b"
  shows "lexed_number_literal (a @ CHR ''.'' # b)"
proof -
  from assms have tw2: "takeWhile is_digit (a @ CHR ''.'' # b) = a"
    and dw2: "dropWhile is_digit (a @ CHR ''.'' # b) = CHR ''.'' # b"
    by (simp_all add: list_all_iff takeWhile_append2 dropWhile_append2)
  from assms(1,3) show ?thesis
    by (simp add: lexed_number_literal_def tw2 dw2)
qed


text \<open>
  C7 (as the lexer behaves). A token classified as a numeric literal is a run of one or more
  digits, optionally followed by a dot and a possibly empty run of digits: the lexer
  consumes a dot that follows the integer part whether or not a digit follows it.
\<close>

theorem lexer_next_number_shape:
  assumes "lexer_next src lx = (t, lx')" and "tok_type t = TOKEN_NUMBER"
  shows "lexed_number_literal (token_to_str src t)"
proof -
  define l0 where "l0 = skip_whitespace src lx"
  define d where "d = drop (lex_pos l0) src"
  define a where "a = takeWhile is_digit d"
  define r where "r = dropWhile is_digit d"
  have dar: "d = a @ r" by (simp add: a_def r_def)
  have a_dig: "list_all is_digit a"
    by (simp add: a_def list_all_iff) (meson set_takeWhileD)
  show ?thesis
  proof (cases "strlen src \<le> lex_pos l0")
    case True
    with assms show ?thesis by (auto simp: lexer_next_def l0_def Let_def)
  next
    case False
    note inb = this
    show ?thesis
    proof (cases "is_alpha (char_at src (lex_pos l0)) \<or> char_at src (lex_pos l0) = CHR ''_''")
      case True
      with inb assms have "tok_type t = check_keyword src (lex_pos l0) (lex_pos (lexer_next_ident src l0) - lex_pos l0)"
        by (auto simp: lexer_next_def l0_def Let_def)
      with assms(2) show ?thesis
        by (simp add: check_keyword_def split: if_splits)
    next
      case nal: False
      show ?thesis
      proof (cases "is_digit (char_at src (lex_pos l0))")
        case False
        with nal inb assms have "tok_type t = (case symbol_type (char_at src (lex_pos l0)) of Some t \<Rightarrow> t | None \<Rightarrow> TOKEN_EOF)"
          by (auto simp: lexer_next_def l0_def Let_def)
        with assms(2) show ?thesis
          by (simp add: symbol_type_def split: if_splits)
      next
        case True
        then have "d \<noteq> []" "is_digit (hd d)"
          by (auto simp: char_at_drop d_def split: list.splits)
        then have a_ne: "a \<noteq> []"
          by (cases d) (simp_all add: a_def)
        define l1 where "l1 = lexer_next_digits src l0"
        have p1: "lex_pos l1 = lex_pos l0 + length a"
          by (simp add: l1_def lexer_next_digits_pos a_def d_def)
        have dr: "drop (lex_pos l1) src = r"
          using dar by (simp add: p1 d_def add.commute [of "lex_pos l0"] drop_drop [symmetric] del: drop_drop)
        show ?thesis
        proof (cases "char_at src (lex_pos l1) = CHR ''.''")
          case False
          with True nal inb assms have t: "tok_text t = lex_pos l0" "tok_length t = length a"
            by (auto simp: lexer_next_def l0_def [symmetric] Let_def l1_def [symmetric] p1)
          have "token_to_str src t = a"
            using dar by (simp add: token_to_str_def t d_def [symmetric])
          with lexed_number_int [OF a_ne a_dig] show ?thesis by simp
        next
          case dot: True
          then obtain r' where r: "r = CHR ''.'' # r'"
            by (auto simp: char_at_drop dr NUL_def split: list.splits)
          define b where "b = takeWhile is_digit r'"
          have b_dig: "list_all is_digit b"
            by (simp add: b_def list_all_iff) (meson set_takeWhileD)
          have "drop (Suc (lex_pos l1)) src = r'"
            using dr r by (metis drop_Suc list.sel(3) tl_drop)
          then have p2: "lex_pos (lexer_next_digits src (l1\<lparr>lex_pos := lex_pos l1 + 1, lex_col := lex_col l1 + 1\<rparr>))
                = lex_pos l0 + length a + 1 + length b"
            by (simp add: lexer_next_digits_pos p1 [symmetric] b_def)
          from dot True nal inb assms have t: "tok_text t = lex_pos l0" "tok_length t = length a + 1 + length b"
            using p2 by (auto simp: lexer_next_def l0_def [symmetric] Let_def l1_def [symmetric])
          have "r' = b @ dropWhile is_digit r'" by (simp add: b_def)
          then have "d = (a @ CHR ''.'' # b) @ dropWhile is_digit r'"
            using dar r by simp
          then have "token_to_str src t = a @ CHR ''.'' # b"
            by (simp add: token_to_str_def t d_def [symmetric])
          with lexed_number_frac [OF a_ne a_dig b_dig] show ?thesis by simp
        qed
      qed
    qed
  qed
qed

theorem lexer_next_number_shape_witness:
  "lexer_next ''x = 3.14;'' \<lparr>lex_pos = 3, lex_line = 1, lex_col = 4\<rparr> =
     (\<lparr>tok_type = TOKEN_NUMBER, tok_text = 4, tok_length = 4, tok_line = 1, tok_col = 5\<rparr>,
      \<lparr>lex_pos = 8, lex_line = 1, lex_col = 9\<rparr>) \<and>
   lexed_number_literal
     (token_to_str ''x = 3.14;''
        \<lparr>tok_type = TOKEN_NUMBER, tok_text = 4, tok_length = 4, tok_line = 1, tok_col = 5\<rparr>)"
proof -
  have run: "lexer_next ''x = 3.14;'' \<lparr>lex_pos = 3, lex_line = 1, lex_col = 4\<rparr> =
     (\<lparr>tok_type = TOKEN_NUMBER, tok_text = 4, tok_length = 4, tok_line = 1, tok_col = 5\<rparr>,
      \<lparr>lex_pos = 8, lex_line = 1, lex_col = 9\<rparr>)"
    by code_simp
  have ty: "tok_type \<lparr>tok_type = TOKEN_NUMBER, tok_text = 4, tok_length = 4, tok_line = 1, tok_col = 5\<rparr>
      = TOKEN_NUMBER"
    by simp
  from lexer_next_number_shape [OF run ty] run show ?thesis by simp
qed

text \<open>
  C7 (as stated) fails: on the input \<open>1.\<close> the lexer returns one numeric token whose text
  is \<open>1.\<close>, which ends in a dot with no digit after it.
\<close>

theorem lexer_next_number_trailing_dot:
  "tok_type (fst (lexer_next ''1.'' lexer_init)) = TOKEN_NUMBER \<and>
   token_to_str ''1.'' (fst (lexer_next ''1.'' lexer_init)) = ''1.'' \<and>
   \<not> spec_number_literal (token_to_str ''1.'' (fst (lexer_next ''1.'' lexer_init)))"
  by code_simp

section \<open>Properties of the code generator\<close>

lemma find_functions_last:
  "find_functions fns v f =
     (case last_of_stage is_vertex fns of None \<Rightarrow> v | Some fn \<Rightarrow> Some fn,
      case last_of_stage is_fragment fns of None \<Rightarrow> f | Some fn \<Rightarrow> Some fn)"
proof (induction fns arbitrary: v f)
  case Nil
  show ?case by (simp add: last_of_stage_def)
next
  case (Cons fn fns)
  show ?case
    by (simp add: Cons.IH last_of_stage_def split: list.splits)
qed

lemma find_functions_None:
  "find_functions fns None None = (last_of_stage is_vertex fns, last_of_stage is_fragment fns)"
  by (simp add: find_functions_last split: option.splits)

text \<open>
  C1 (as the generator behaves). The search loop does not stop at a match, so for each stage
  the function emitted is the last one of that stage in list order: with every output file
  writable, \<open>generate_glsl\<close> writes the vertex file from the last Vertex function and the
  fragment file from the last Fragment function, and no file for a stage without function.
\<close>

theorem generate_glsl_last_wins:
  assumes "writable (snprintf_256 (out @ ''.vert.glsl''))"
    and "writable (snprintf_256 (out @ ''.frag.glsl''))"
  shows "generate_glsl writable s out fs =
     (None,
      fs @
      (case last_of_stage is_vertex (fx_functions s) of
         None \<Rightarrow> []
       | Some fn \<Rightarrow> [(snprintf_256 (out @ ''.vert.glsl''), vertex_text s fn)]) @
      (case last_of_stage is_fragment (fx_functions s) of
         None \<Rightarrow> []
       | Some fn \<Rightarrow> [(snprintf_256 (out @ ''.frag.glsl''), fragment_text s fn)]))"
  using assms
  by (simp add: generate_glsl_def find_functions_None write_file_def Let_def split: option.splits)

theorem generate_glsl_last_wins_witness:
  "all_writable (snprintf_256 (''t.fx_S'' @ ''.vert.glsl'')) \<and>
   all_writable (snprintf_256 (''t.fx_S'' @ ''.frag.glsl'')) \<and>
   generate_glsl all_writable
     \<lparr>shader_name = ''S'', uniforms = [], inputs = [],
      fx_functions =
        [\<lparr>fn_name = ''vertex'', is_vertex = True, is_fragment = False, out_type = None,
          out_name = None, statements = [\<lparr>stmt_text = ''a = 1;'', stmt_length = 6, stmt_in_source = False\<rparr>]\<rparr>,
         \<lparr>fn_name = ''vertex'', is_vertex = True, is_fragment = False, out_type = None,
          out_name = None, statements = [\<lparr>stmt_text = ''b = 2;'', stmt_length = 6, stmt_in_source = False\<rparr>]\<rparr>]\<rparr>
     ''t.fx_S'' [] =
   (None,
    [(''t.fx_S.vert.glsl'',
      ''#version 330 core'' @ NL @ ''precision highp float;'' @ NL @ NL @
      ''void main() {'' @ NL @ ''b = 2;'' @ ''}'' @ NL)])"
proof -
  have w1: "all_writable (snprintf_256 (''t.fx_S'' @ ''.vert.glsl''))"
    and w2: "all_writable (snprintf_256 (''t.fx_S'' @ ''.frag.glsl''))"
    by (simp_all add: all_writable_def)
  show ?thesis
    using w1 w2
    by (simp add: generate_glsl_last_wins [OF w1 w2] last_of_stage_def snprintf_256_def vertex_text_def
          write_function_def statements_text_def write_inputs_def write_uniforms_def
          write_glsl_header_def)
qed

text \<open>
  C1 (as stated) fails. The file below parses to one shader definition with two functions
  tagged Vertex; the vertex file is written from the second one, and its text differs from
  the text the first one would give. Both files are written and closed before the run is
  stopped in the clean-up, where the text of a legacy statement is released.
\<close>

theorem generate_glsl_first_wins_counterexample:
  "parse_shader_file ''shader S { void a vertex } void b vertex } }'' initial_parser =
     Inr [\<lparr>shader_name = ''{'', uniforms = [], inputs = [],
           fx_functions =
             [\<lparr>fn_name = ''vertex'', is_vertex = True, is_fragment = False, out_type = None,
               out_name = None,
               statements = [\<lparr>stmt_text = ''vertex } void b vertex } }'', stmt_length = 7, stmt_in_source = True\<rparr>]\<rparr>,
              \<lparr>fn_name = ''vertex'', is_vertex = True, is_fragment = False, out_type = None,
               out_name = None,
               statements = [\<lparr>stmt_text = ''vertex } }'', stmt_length = 7, stmt_in_source = True\<rparr>]\<rparr>]\<rparr>] \<and>
   first_of_stage is_vertex
     [\<lparr>fn_name = ''vertex'', is_vertex = True, is_fragment = False, out_type = None,
       out_name = None,
       statements = [\<lparr>stmt_text = ''vertex } void b vertex } }'', stmt_length = 7, stmt_in_source = True\<rparr>]\<rparr>,
      \<lparr>fn_name = ''vertex'', is_vertex = True, is_fragment = False, out_type = None,
       out_name = None,
       statements = [\<lparr>stmt_text = ''vertex } }'', stmt_length = 7, stmt_in_source = True\<rparr>]\<rparr>] =
     Some \<lparr>fn_name = ''vertex'', is_vertex = True, is_fragment = False, out_type = None,
           out_name = None,
           statements = [\<lparr>stmt_text = ''vertex } void b vertex } }'', stmt_length = 7, stmt_in_source = True\<rparr>]\<rparr> \<and>
   fxc_main ''t.fx'' (Some ''shader S { void a vertex } void b vertex } }'') all_writable =
     (Some Invalid_free,
      [(''t.fx_{.vert.glsl'',
        ''#version 330 core'' @ NL @ ''precision highp float;'' @ NL @ NL @
        ''void main() {'' @ NL @ ''vertex } }'' @ ''}'' @ NL),
       (''t.fx_{.meta'', ''shader {'' @ NL @ ''uniforms 0'' @ NL @ ''inputs 0'' @ NL)]) \<and>
   vertex_text
     \<lparr>shader_name = ''{'', uniforms = [], inputs = [], fx_functions = []\<rparr>
     \<lparr>fn_name = ''vertex'', is_vertex = True, is_fragment = False, out_type = None,
      out_name = None,
      statements = [\<lparr>stmt_text = ''vertex } void b vertex } }'', stmt_length = 7, stmt_in_source = True\<rparr>]\<rparr> \<noteq>
     ''#version 330 core'' @ NL @ ''precision highp float;'' @ NL @ NL @
     ''void main() {'' @ NL @ ''vertex } }'' @ ''}'' @ NL"
  by code_simp

lemma format_d_0: "format_d 0 = ''0''"
  by (simp add: format_d.simps digit_char_def)

lemma unlines_append: "unlines (xs @ ys) = unlines xs @ unlines ys"
  by (simp add: unlines_def)

lemma unlines_Cons: "unlines (x # xs) = x @ NL @ unlines xs"
  by (simp add: unlines_def)

lemma unlines_Nil: "unlines [] = []"
  by (simp add: unlines_def)

lemma metadata_uniforms_lines:
  "metadata_uniforms f us = f @ unlines (map metadata_uniform_line us)"
  by (induction us arbitrary: f) (simp_all add: unlines_Cons unlines_Nil metadata_uniform_line_def)

lemma metadata_inputs_lines:
  "metadata_inputs f ins = f @ unlines (map metadata_input_line ins)"
  by (induction ins arbitrary: f) (simp_all add: unlines_Cons unlines_Nil metadata_input_line_def)

text \<open>
  C3. The manifest of a shader definition is the line \<open>shader <name>\<close>, the line
  \<open>uniforms 0\<close>, one line \<open>uniform <type> <name>\<close> for each declared uniform in declaration
  order, the line \<open>inputs 0\<close>, and one line \<open>input <type> <name>\<close> for each declared input in
  declaration order; the two counts are the literal 0 whatever the lists hold. This text
  is what \<open>generate_metadata\<close> writes to the \<open>.meta\<close> path when that file can be opened.
\<close>

theorem generate_metadata_lines:
  "metadata_text s =
     unlines ([''shader '' @ shader_name s, ''uniforms 0''] @
              map metadata_uniform_line (uniforms s) @
              [''inputs 0''] @
              map metadata_input_line (inputs s)) \<and>
   generate_metadata writable s out fs =
     (if writable (snprintf_256 (out @ ''.meta''))
      then (None, fs @ [(snprintf_256 (out @ ''.meta''), metadata_text s)])
      else (Some Exit1, fs))"
  by (simp add: metadata_text_def generate_metadata_def write_file_def Let_def format_d_0
        metadata_uniforms_lines metadata_inputs_lines unlines_append unlines_Cons unlines_Nil)

theorem generate_metadata_lines_witness:
  "metadata_text
     \<lparr>shader_name = ''vertex'',
      uniforms = [\<lparr>uniform_type = ''mat4'', uniform_name = ''mvp'', uniform_strings = 8\<rparr>,
                  \<lparr>uniform_type = ''vec3'', uniform_name = ''tint'', uniform_strings = 26\<rparr>],
      inputs = [\<lparr>input_type = ''vec3'', input_name = ''position'', input_strings = 40\<rparr>],
      fx_functions = []\<rparr> =
   ''shader vertex'' @ NL @ ''uniforms 0'' @ NL @ ''uniform mat4 mvp'' @ NL @
   ''uniform vec3 tint'' @ NL @ ''inputs 0'' @ NL @ ''input vec3 position'' @ NL"
  using generate_metadata_lines
    [of "\<lparr>shader_name = ''vertex'',
      uniforms = [\<lparr>uniform_type = ''mat4'', uniform_name = ''mvp'', uniform_strings = 8\<rparr>,
                  \<lparr>uniform_type = ''vec3'', uniform_name = ''tint'', uniform_strings = 26\<rparr>],
      inputs = [\<lparr>input_type = ''vec3'', input_name = ''position'', input_strings = 40\<rparr>],
      fx_functions = []\<rparr>" all_writable "''t''" "[]"]
  by (simp add: unlines_def metadata_uniform_line_def metadata_input_line_def)

lemma write_uniforms_loop_lines:
  "write_uniforms_loop f us = f @ unlines (map uniform_line us)"
  by (induction us arbitrary: f) (simp_all add: unlines_Cons unlines_Nil uniform_line_def)

lemma write_inputs_loop_vertex:
  "write_inputs_loop f ins True k =
     f @ unlines (map (\<lambda>i. layout_line (k + i) (ins ! i)) [0..<length ins])"
proof (induction ins arbitrary: f k)
  case Nil
  show ?case by (simp add: unlines_Nil)
next
  case (Cons inp ins)
  have "map (\<lambda>i. layout_line (k + i) ((inp # ins) ! i)) [0..<length (inp # ins)] =
      layout_line k inp # map (\<lambda>i. layout_line (Suc k + i) (ins ! i)) [0..<length ins]"
    by (simp add: upt_conv_Cons map_Suc_upt [symmetric] del: upt_Suc)
  then show ?case
    by (simp add: Cons.IH unlines_Cons layout_line_def)
qed

lemma write_function_append: "write_function f fn ins = f @ write_function [] fn ins"
  by (simp add: write_function_def)

lemma write_uniforms_header_lines:
  "write_uniforms (write_glsl_header []) us =
     ''#version 330 core'' @ NL @ ''precision highp float;'' @ NL @ NL @
     unlines (map uniform_line us) @ (if us \<noteq> [] then NL else [])"
  by (simp add: write_uniforms_def write_glsl_header_def write_uniforms_loop_lines Let_def)

text \<open>
  C4. The text of the vertex file is the header and the uniform lines, then one line
  \<open>layout(location = i) in <type> <name>;\<close> for each declared input, in declaration order,
  where \<open>i\<close> is the position of the input in the list counted from 0, then an empty line
  when there is an input, then the function. The location is the position alone: neither
  the type of the input nor a semantic annotation enters it.
\<close>

theorem vertex_text_layout_locations:
  "vertex_text s fn =
     ''#version 330 core'' @ NL @ ''precision highp float;'' @ NL @ NL @
     unlines (map uniform_line (uniforms s)) @ (if uniforms s \<noteq> [] then NL else []) @
     unlines (map (\<lambda>i. layout_line i (inputs s ! i)) [0..<length (inputs s)]) @
     (if inputs s \<noteq> [] then NL else []) @
     write_function [] fn (inputs s)"
proof -
  have "vertex_text s fn =
      write_uniforms (write_glsl_header []) (uniforms s) @
      unlines (map (\<lambda>i. layout_line i (inputs s ! i)) [0..<length (inputs s)]) @
      (if inputs s \<noteq> [] then NL else []) @
      write_function [] fn (inputs s)"
    by (simp add: vertex_text_def write_inputs_def Let_def write_inputs_loop_vertex
          write_function_append [of "_ @ _"] write_function_append [of "write_inputs_loop _ _ _ _"])
  then show ?thesis
    by (simp only: write_uniforms_header_lines append_assoc)
qed

theorem vertex_text_layout_locations_witness:
  "vertex_text
     \<lparr>shader_name = ''vertex'', uniforms = [],
      inputs = [\<lparr>input_type = ''vec3'', input_name = ''position'', input_strings = 40\<rparr>,
                \<lparr>input_type = ''vec2'', input_name = ''texCoord'', input_strings = 60\<rparr>],
      fx_functions = []\<rparr>
     \<lparr>fn_name = ''vertex'', is_vertex = True, is_fragment = False, out_type = None,
      out_name = None, statements = [\<lparr>stmt_text = ''x;'', stmt_length = 2, stmt_in_source = False\<rparr>]\<rparr> =
   ''#version 330 core'' @ NL @ ''precision highp float;'' @ NL @ NL @
   ''layout(location = 0) in vec3 position;'' @ NL @
   ''layout(location = 1) in vec2 texCoord;'' @ NL @ NL @
   ''void main() {'' @ NL @ ''x;'' @ ''}'' @ NL \<and>
   layout_line 12 \<lparr>input_type = ''vec4'', input_name = ''weights'', input_strings = 80\<rparr> =
   ''layout(location = 12) in vec4 weights;''"
proof -
  have l: "layout_line 12 \<lparr>input_type = ''vec4'', input_name = ''weights'', input_strings = 80\<rparr> =
      ''layout(location = 12) in vec4 weights;''"
    by code_simp
  from vertex_text_layout_locations
    [of "\<lparr>shader_name = ''vertex'', uniforms = [],
      inputs = [\<lparr>input_type = ''vec3'', input_name = ''position'', input_strings = 40\<rparr>,
                \<lparr>input_type = ''vec2'', input_name = ''texCoord'', input_strings = 60\<rparr>],
      fx_functions = []\<rparr>"
     "\<lparr>fn_name = ''vertex'', is_vertex = True, is_fragment = False, out_type = None,
      out_name = None, statements = [\<lparr>stmt_text = ''x;'', stmt_length = 2, stmt_in_source = False\<rparr>]\<rparr>"] l
  show ?thesis
    by (simp add: unlines_def layout_line_def write_function_def statements_text_def
          format_d.simps digit_char_def upt_conv_Cons)
qed

section \<open>Properties of the parsers\<close>

lemma parse_function_one_stage:
  "parse_function src p = Inr r \<Longrightarrow> one_stage (fst r)"
  by (auto simp: parse_function_def parse_function_rest_def one_stage_def Let_def split: if_splits)

lemma parse_new_function_one_stage:
  "parse_new_function src p = Inr r \<Longrightarrow> one_stage (fst r)"
  by (auto simp: parse_new_function_def one_stage_def Let_def split: sum.splits)

lemma shader_block_item_one_stage:
  assumes "shader_block_item src st = Inr st'" and "list_all one_stage (sb_functions st)"
  shows "list_all one_stage (sb_functions st')"
  using assms
  by (auto simp: shader_block_item_def Let_def split: if_splits sum.splits
        dest: parse_function_one_stage)

lemma parse_shader_loop_one_stage:
  "parse_shader_loop src st = Inr st' \<Longrightarrow> list_all one_stage (sb_functions st) \<Longrightarrow>
     list_all one_stage (sb_functions st')"
proof (induction src st rule: parse_shader_loop.induct)
  case (1 src st)
  show ?case
  proof (cases "tok_type (current (sb_parser st)) \<noteq> TOKEN_RBRACE \<and>
         tok_type (current (sb_parser st)) \<noteq> TOKEN_EOF")
    case False
    with "1.prems" show ?thesis
      by (subst (asm) parse_shader_loop.simps) auto
  next
    case True
    from "1.prems"(1) True obtain st1 where it: "shader_block_item src st = Inr st1"
      and rec: "parse_shader_loop src st1 = Inr st'"
      by (subst (asm) parse_shader_loop.simps) (auto split: sum.splits)
    from "1.IH" [OF True it rec] shader_block_item_one_stage [OF it "1.prems"(2)]
    show ?thesis by simp
  qed
qed

lemma parse_shader_one_stage:
  assumes "parse_shader src p = Inr r"
  shows "list_all one_stage (fx_functions (fst r))"
proof -
  from assms obtain st0 st where "parse_shader_loop src st0 = Inr st" "sb_functions st0 = []"
    and "fx_functions (fst r) = sb_functions st"
    by (auto simp: parse_shader_def Let_def split: sum.splits)
  with parse_shader_loop_one_stage [of src st0 st] show ?thesis
    by simp
qed

lemma parse_standalone_shader_one_stage:
  assumes "parse_standalone_shader src p = Inr r"
  shows "list_all one_stage (fx_functions (fst r))"
  using assms
  by (auto simp: parse_standalone_shader_def Let_def split: sum.splits
        dest: parse_new_function_one_stage)

lemma top_level_item_one_stage:
  assumes "top_level_item src st = Inr st'"
    and "list_all (\<lambda>s. list_all one_stage (fx_functions s)) (fs_shaders st)"
  shows "list_all (\<lambda>s. list_all one_stage (fx_functions s)) (fs_shaders st')"
  using assms
  by (auto simp: top_level_item_def Let_def split: if_splits sum.splits
        dest: parse_shader_one_stage parse_standalone_shader_one_stage)

lemma parse_shader_file_loop_one_stage:
  "parse_shader_file_loop src st = Inr st' \<Longrightarrow>
   list_all (\<lambda>s. list_all one_stage (fx_functions s)) (fs_shaders st) \<Longrightarrow>
   list_all (\<lambda>s. list_all one_stage (fx_functions s)) (fs_shaders st')"
proof (induction src st rule: parse_shader_file_loop.induct)
  case (1 src st)
  show ?case
  proof (cases "tok_type (current (fs_parser st)) \<noteq> TOKEN_EOF")
    case False
    with "1.prems" show ?thesis
      by (subst (asm) parse_shader_file_loop.simps) auto
  next
    case True
    from "1.prems"(1) True obtain st1 where it: "top_level_item src st = Inr st1"
      and rec: "parse_shader_file_loop src st1 = Inr st'"
      by (subst (asm) parse_shader_file_loop.simps) (auto split: sum.splits)
    from "1.IH" [OF True it rec] top_level_item_one_stage [OF it "1.prems"(2)]
    show ?thesis by simp
  qed
qed

lemma parse_shader_file_one_stage:
  assumes "parse_shader_file src p = Inr shaders" and "s \<in> set shaders" and "fn \<in> set (fx_functions s)"
  shows "one_stage fn"
proof -
  from assms(1) obtain st0 st where "parse_shader_file_loop src st0 = Inr st" "fs_shaders st0 = []"
    and "shaders = fs_shaders st"
    by (auto simp: parse_shader_file_def split: sum.splits)
  with parse_shader_file_loop_one_stage [of src st0 st]
  have "list_all (\<lambda>s. list_all one_stage (fx_functions s)) shaders"
    by simp
  with assms(2,3) show ?thesis
    by (auto simp: list_all_iff)
qed

lemma last_of_stage_Some:
  assumes "last_of_stage stage fns = Some fn"
  shows "fn \<in> set fns" and "stage fn"
proof -
  from assms have ne: "filter stage fns \<noteq> []" and fn: "fn = last (filter stage fns)"
    by (auto simp: last_of_stage_def split: list.splits)
  from ne have "last (filter stage fns) \<in> set (filter stage fns)"
    by (rule last_in_set)
  with fn show "fn \<in> set fns" and "stage fn"
    by auto
qed

text \<open>
  C5. For every shader definition the parser produces and every function the generator
  selects for the fragment stage, the text of the fragment file is the header, the
  uniform block, the three fixed declarations \<open>in vec3 v_normal;\<close>, \<open>in vec3 v_position;\<close>,
  \<open>in vec2 v_texCoord;\<close>, the declaration \<open>out vec4 fragColor;\<close> and the function body inside
  \<open>void main()\<close>. Neither the declared inputs of the shader definition nor any function of
  the vertex stage occurs in it.
\<close>

theorem fragment_text_fixed_varyings:
  assumes "parse_shader_file src p = Inr shaders" and "s \<in> set shaders"
    and "last_of_stage is_fragment (fx_functions s) = Some fn"
  shows "fragment_text s fn =
     ''#version 330 core'' @ NL @ ''precision highp float;'' @ NL @ NL @
     unlines (map uniform_line (uniforms s)) @ (if uniforms s \<noteq> [] then NL else []) @
     ''in vec3 v_normal;'' @ NL @ ''in vec3 v_position;'' @ NL @ ''in vec2 v_texCoord;'' @ NL @ NL @
     ''out vec4 fragColor;'' @ NL @ NL @
     ''void main() {'' @ NL @ statements_text fn @ ''}'' @ NL"
proof -
  from last_of_stage_Some [OF assms(3)] have "fn \<in> set (fx_functions s)" and frag: "is_fragment fn"
    by simp_all
  with parse_shader_file_one_stage [OF assms(1,2)] have "\<not> is_vertex fn"
    by (auto simp: one_stage_def)
  with frag have "fragment_text s fn =
     write_uniforms (write_glsl_header []) (uniforms s) @
     ''in vec3 v_normal;'' @ NL @ ''in vec3 v_position;'' @ NL @ ''in vec2 v_texCoord;'' @ NL @ NL @
     ''out vec4 fragColor;'' @ NL @ NL @
     ''void main() {'' @ NL @ statements_text fn @ ''}'' @ NL"
    by (simp add: fragment_text_def write_function_def write_vertex_outputs_as_fragment_inputs_def)
  then show ?thesis
    by (simp only: write_uniforms_header_lines append_assoc)
qed

lemma modern_source_parses:
  "parse_shader_file modern_source initial_parser =
     Inr [modern_vertex_shader, modern_fragment_shader]"
  by code_simp

theorem fragment_text_fixed_varyings_witness:
  "parse_shader_file modern_source initial_parser =
     Inr [modern_vertex_shader, modern_fragment_shader] \<and>
   last_of_stage is_fragment (fx_functions modern_fragment_shader) = Some modern_fragment_function \<and>
   fragment_text modern_fragment_shader modern_fragment_function =
     ''#version 330 core'' @ NL @ ''precision highp float;'' @ NL @ NL @
     ''uniform mat4 m;'' @ NL @ NL @
     ''in vec3 v_normal;'' @ NL @ ''in vec3 v_position;'' @ NL @ ''in vec2 v_texCoord;'' @ NL @ NL @
     ''out vec4 fragColor;'' @ NL @ NL @
     ''void main() {'' @ NL @ ''}'' @ NL"
proof -
  have mem: "modern_fragment_shader \<in> set [modern_vertex_shader, modern_fragment_shader]"
    by simp
  have sel: "last_of_stage is_fragment (fx_functions modern_fragment_shader) = Some modern_fragment_function"
    by (simp add: last_of_stage_def modern_fragment_shader_def modern_fragment_function_def)
  from fragment_text_fixed_varyings [OF modern_source_parses mem sel] modern_source_parses sel
  show ?thesis
    by (simp add: unlines_def uniform_line_def statements_text_def
          modern_fragment_shader_def modern_fragment_function_def)
qed

text \<open>
  The number that names the two strings of a declaration is an offset inside the part of
  the buffer that its call of \<open>parse_uniform\<close> or \<open>parse_input\<close> reads. The lexer never
  moves back, so the numbers of two calls differ, and two declarations carry the same
  number only when one is a copy of the other.
\<close>

lemma lexer_next_token_range:
  assumes "lexer_next src lx = (t, lx')"
  shows "lex_pos lx \<le> tok_text t" and "tok_type t \<noteq> TOKEN_EOF \<Longrightarrow> tok_text t < lex_pos lx'"
proof -
  define l0 where "l0 = skip_whitespace src lx"
  have m0: "lex_pos lx \<le> lex_pos l0"
    by (simp add: l0_def skip_whitespace_mono)
  define l1 where "l1 = lexer_next_digits src l0"
  have m2: "lex_pos l1 \<le> lex_pos (lexer_next_digits src (l1\<lparr>lex_pos := lex_pos l1 + 1, lex_col := lex_col l1 + 1\<rparr>))"
    using lexer_next_digits_mono [of "l1\<lparr>lex_pos := lex_pos l1 + 1, lex_col := lex_col l1 + 1\<rparr>" src]
    by simp
  from assms m0 show "lex_pos lx \<le> tok_text t"
    by (auto simp: lexer_next_def l0_def [symmetric] Let_def split: if_splits)
  assume ne: "tok_type t \<noteq> TOKEN_EOF"
  have s3: "is_alpha (char_at src (lex_pos l0)) \<or> char_at src (lex_pos l0) = CHR ''_''
      \<Longrightarrow> lex_pos l0 < lex_pos (lexer_next_ident src l0)"
    by (rule lexer_next_ident_first)
  have s1: "is_digit (char_at src (lex_pos l0)) \<Longrightarrow> lex_pos l0 < lex_pos l1"
    unfolding l1_def by (rule lexer_next_digits_first)
  from assms ne m2 s1 s3 show "tok_text t < lex_pos lx'"
    by (auto simp: lexer_next_def l0_def [symmetric] l1_def [symmetric] Let_def split: if_splits)
qed

lemma parser_advance_pos_le: "lex_pos (p_lex p) \<le> lex_pos (p_lex (parser_advance src p))"
  using lexer_next_progress(1) [of src "p_lex p"]
  by (cases "lexer_next src (p_lex p)") (simp add: parser_advance_def)

lemma parser_expect_pos_le: "lex_pos (p_lex p) \<le> lex_pos (p_lex (snd (parser_expect src p ty)))"
  by (simp add: parser_expect_def parser_match_def parser_advance_pos_le)

lemma parse_uniform_strings_range:
  assumes "parse_uniform src p = (Some u, p')"
  shows "lex_pos (p_lex p) \<le> uniform_strings u" and "uniform_strings u < lex_pos (p_lex p')"
proof -
  let ?p1 = "parser_advance src p"
  let ?p2 = "parser_advance src ?p1"
  let ?p3 = "parser_advance src ?p2"
  obtain t lx' where ln: "lexer_next src (p_lex p) = (t, lx')"
    by (cases "lexer_next src (p_lex p)")
  from assms have ty: "\<not> outside_types (tok_type (current ?p1)) TOKEN_SAMPLERCUBE"
    and u: "uniform_strings u = tok_text (current ?p1)"
    and p': "p' = snd (parser_expect src ?p3 TOKEN_SEMICOLON)"
    by (auto simp: parse_uniform_def parser_expect_def parser_match_def Let_def
          split: if_splits prod.splits bool.splits)
  from ty have ne: "tok_type (current ?p1) \<noteq> TOKEN_EOF"
    by (auto simp: outside_types_def)
  from ln have c: "current ?p1 = t" and l: "p_lex ?p1 = lx'"
    by (simp_all add: parser_advance_def)
  from lexer_next_token_range(1) [OF ln] u c show "lex_pos (p_lex p) \<le> uniform_strings u"
    by simp
  from lexer_next_token_range(2) [OF ln] ne u c l have "uniform_strings u < lex_pos (p_lex ?p1)"
    by simp
  also have "\<dots> \<le> lex_pos (p_lex ?p2)" by (rule parser_advance_pos_le)
  also have "\<dots> \<le> lex_pos (p_lex ?p3)" by (rule parser_advance_pos_le)
  also have "\<dots> \<le> lex_pos (p_lex p')" unfolding p' by (rule parser_expect_pos_le)
  finally show "uniform_strings u < lex_pos (p_lex p')" .
qed

lemma parse_input_strings_range:
  assumes "parse_input src p = (Some i, p')"
  shows "lex_pos (p_lex p) \<le> input_strings i" and "input_strings i < lex_pos (p_lex p')"
proof -
  let ?p1 = "parser_advance src p"
  let ?p2 = "parser_advance src ?p1"
  let ?p3 = "parser_advance src ?p2"
  obtain t lx' where ln: "lexer_next src (p_lex p) = (t, lx')"
    by (cases "lexer_next src (p_lex p)")
  from assms have ty: "\<not> outside_types (tok_type (current ?p1)) TOKEN_SAMPLERCUBE"
    and u: "input_strings i = tok_text (current ?p1)"
    and p': "p' = snd (parser_expect src ?p3 TOKEN_SEMICOLON)"
    by (auto simp: parse_input_def parser_expect_def parser_match_def Let_def
          split: if_splits prod.splits bool.splits)
  from ty have ne: "tok_type (current ?p1) \<noteq> TOKEN_EOF"
    by (auto simp: outside_types_def)
  from ln have c: "current ?p1 = t" and l: "p_lex ?p1 = lx'"
    by (simp_all add: parser_advance_def)
  from lexer_next_token_range(1) [OF ln] u c show "lex_pos (p_lex p) \<le> input_strings i"
    by simp
  from lexer_next_token_range(2) [OF ln] ne u c l have "input_strings i < lex_pos (p_lex ?p1)"
    by simp
  also have "\<dots> \<le> lex_pos (p_lex ?p2)" by (rule parser_advance_pos_le)
  also have "\<dots> \<le> lex_pos (p_lex ?p3)" by (rule parser_advance_pos_le)
  also have "\<dots> \<le> lex_pos (p_lex p')" unfolding p' by (rule parser_expect_pos_le)
  finally show "input_strings i < lex_pos (p_lex p')" .
qed

lemma copy_uniform_list_id: "copy_uniform_list us = us"
  by (induction us) simp_all

lemma copy_input_list_id: "copy_input_list ins = ins"
  by (induction ins) simp_all

lemma standalone_declarations_at_block:
  assumes "tok_type (current p) = TOKEN_VERTEX_SHADER \<or> tok_type (current p) = TOKEN_FRAGMENT_SHADER"
  shows "standalone_declarations src \<lparr>d_parser = p, d_uniforms = empty_list, d_inputs = empty_list\<rparr> =
     Inr \<lparr>d_parser = p, d_uniforms = empty_list, d_inputs = empty_list\<rparr>"
  using assms by (subst standalone_declarations.simps) auto

lemma parse_standalone_shader_no_locals:
  assumes "tok_type (current p) = TOKEN_VERTEX_SHADER \<or> tok_type (current p) = TOKEN_FRAGMENT_SHADER"
    and "parse_standalone_shader src p = Inr r"
  shows "uniforms (fst r) = []" and "inputs (fst r) = []"
  using assms(2) standalone_declarations_at_block [OF assms(1), of src]
  by (auto simp: parse_standalone_shader_def Let_def empty_list_def split: sum.splits)

text \<open>
  A declaration at the top level of the file that parses is linked at the end of the
  pending list: every declaration before a standalone block, also one placed right
  before it, reaches the block through the pending lists.
\<close>

lemma top_level_uniform_is_pending:
  assumes "tok_type (current (fs_parser st)) = TOKEN_UNIFORM"
    and "parse_uniform src (fs_parser st) = (Some u, p')"
    and "snd (pending_uniforms st)"
  shows "top_level_item src st =
     Inr (st\<lparr>fs_parser := p', pending_uniforms := (fst (pending_uniforms st) @ [u], True)\<rparr>)"
  using assms by (simp add: top_level_item_def link_node_def Let_def)

lemma top_level_input_is_pending:
  assumes "tok_type (current (fs_parser st)) = TOKEN_INPUT"
    and "parse_input src (fs_parser st) = (Some i, p')"
    and "snd (pending_inputs st)"
  shows "top_level_item src st =
     Inr (st\<lparr>fs_parser := p', pending_inputs := (fst (pending_inputs st) @ [i], True)\<rparr>)"
  using assms by (simp add: top_level_item_def link_node_def Let_def)

lemma top_level_block:
  assumes "tok_type (current (fs_parser st)) = TOKEN_VERTEX_SHADER \<or>
           tok_type (current (fs_parser st)) = TOKEN_FRAGMENT_SHADER"
    and "parse_standalone_shader src (fs_parser st) = Inr r"
  shows "top_level_item src st =
     Inr (st\<lparr>fs_parser := snd r,
              fs_shaders := fs_shaders st @
                [(fst r)\<lparr>uniforms := fst (pending_uniforms st),
                         inputs := fst (pending_inputs st)\<rparr>]\<rparr>)"
proof -
  note loc = parse_standalone_shader_no_locals [OF assms]
  have "(fst r)\<lparr>uniforms := [], inputs := []\<rparr> = fst r"
    using loc by simp
  moreover have "(fst r)\<lparr>inputs := []\<rparr> = fst r"
    using loc by simp
  moreover have "(fst r)\<lparr>uniforms := []\<rparr> = fst r"
    using loc by simp
  ultimately show ?thesis
    using assms loc
    by (auto simp: top_level_item_def Let_def copy_uniform_list_id copy_input_list_id)
qed

lemma file_loop_declarations:
  assumes "standalone_declarations src d0 = Inr d"
    and "fs_parser st = d_parser d0"
    and "pending_uniforms st = (pu @ fst (d_uniforms d0), snd (d_uniforms d0))"
    and "pending_inputs st = (pin @ fst (d_inputs d0), snd (d_inputs d0))"
  shows "parse_shader_file_loop src st =
     parse_shader_file_loop src
       (st\<lparr>fs_parser := d_parser d,
           pending_uniforms := (pu @ fst (d_uniforms d), snd (d_uniforms d)),
           pending_inputs := (pin @ fst (d_inputs d), snd (d_inputs d))\<rparr>)"
  using assms
proof (induction src d0 arbitrary: st rule: standalone_declarations.induct)
  case (1 src d0)
  show ?case
  proof (cases "tok_type (current (d_parser d0)) = TOKEN_UNIFORM \<or>
      tok_type (current (d_parser d0)) = TOKEN_INPUT")
    case False
    with "1.prems"(1) have "d = d0"
      by (subst (asm) standalone_declarations.simps) auto
    with "1.prems"(2-4) have "st\<lparr>fs_parser := d_parser d,
           pending_uniforms := (pu @ fst (d_uniforms d), snd (d_uniforms d)),
           pending_inputs := (pin @ fst (d_inputs d), snd (d_inputs d))\<rparr> = st"
      by simp
    then show ?thesis by simp
  next
    case True
    from "1.prems"(1) True obtain d1 where it: "standalone_declaration src d0 = Inr d1"
      and rec: "standalone_declarations src d1 = Inr d"
      by (subst (asm) standalone_declarations.simps) (auto split: sum.splits)
    define st1 where "st1 = st\<lparr>fs_parser := d_parser d1,
           pending_uniforms := (pu @ fst (d_uniforms d1), snd (d_uniforms d1)),
           pending_inputs := (pin @ fst (d_inputs d1), snd (d_inputs d1))\<rparr>"
    have step: "top_level_item src st = Inr st1"
      using it True "1.prems"(2-4) unfolding st1_def
      by (auto simp: top_level_item_def standalone_declaration_def Let_def link_node_def
            split: if_splits sum.splits option.splits)
    have ne: "tok_type (current (fs_parser st)) \<noteq> TOKEN_EOF"
      using True "1.prems"(2) by auto
    have "parse_shader_file_loop src st = parse_shader_file_loop src st1"
      using ne step by (subst parse_shader_file_loop.simps) simp
    also have "\<dots> = parse_shader_file_loop src
       (st1\<lparr>fs_parser := d_parser d,
           pending_uniforms := (pu @ fst (d_uniforms d), snd (d_uniforms d)),
           pending_inputs := (pin @ fst (d_inputs d), snd (d_inputs d))\<rparr>)"
      by (rule "1.IH" [OF True it rec]) (simp_all add: st1_def)
    also have "st1\<lparr>fs_parser := d_parser d,
           pending_uniforms := (pu @ fst (d_uniforms d), snd (d_uniforms d)),
           pending_inputs := (pin @ fst (d_inputs d), snd (d_inputs d))\<rparr> =
        st\<lparr>fs_parser := d_parser d,
           pending_uniforms := (pu @ fst (d_uniforms d), snd (d_uniforms d)),
           pending_inputs := (pin @ fst (d_inputs d), snd (d_inputs d))\<rparr>"
      by (simp add: st1_def)
    finally show ?thesis .
  qed
qed

lemma top_level_item_shaders:
  "top_level_item src st = Inr st' \<Longrightarrow> prefix (fs_shaders st) (fs_shaders st')"
  by (auto simp: top_level_item_def Let_def split: if_splits sum.splits)

lemma parse_shader_file_loop_shaders:
  "parse_shader_file_loop src st = Inr st' \<Longrightarrow> prefix (fs_shaders st) (fs_shaders st')"
proof (induction src st rule: parse_shader_file_loop.induct)
  case (1 src st)
  show ?case
  proof (cases "tok_type (current (fs_parser st)) \<noteq> TOKEN_EOF")
    case False
    with "1.prems" show ?thesis
      by (subst (asm) parse_shader_file_loop.simps) auto
  next
    case True
    from "1.prems" True obtain st1 where it: "top_level_item src st = Inr st1"
      and rec: "parse_shader_file_loop src st1 = Inr st'"
      by (subst (asm) parse_shader_file_loop.simps) (auto split: sum.splits)
    from top_level_item_shaders [OF it] "1.IH" [OF True it rec] show ?thesis
      by (rule prefix_order.trans)
  qed
qed

text \<open>
  C2. Let the file loop be at a run of declarations written right before a standalone
  block, with pending lists whose tail pointers are intact. \<open>d\<close> is what the declaration
  loop of \<open>parse_standalone_shader\<close> reads from there: the local declarations of the
  block, in order, and the parser at the block, which parses to \<open>r\<close>. Then the file loop
  continues from the state in which the block's shader definition has been appended with
  the pending uniforms followed by the local uniforms, and the pending inputs followed by
  the local inputs; so this is the shader definition at that position in the result of
  the loop, and no declaration is lost. In the code it is the file loop that reads the
  local declarations, into the pending lists, where they stay for the blocks that follow;
  the block receives them with the copy of the pending lists.
\<close>

theorem standalone_shader_declarations:
  assumes "snd (pending_uniforms st)" and "snd (pending_inputs st)"
    and "standalone_declarations src
           \<lparr>d_parser = fs_parser st, d_uniforms = empty_list, d_inputs = empty_list\<rparr> = Inr d"
    and "tok_type (current (d_parser d)) = TOKEN_VERTEX_SHADER \<or>
         tok_type (current (d_parser d)) = TOKEN_FRAGMENT_SHADER"
    and "parse_standalone_shader src (d_parser d) = Inr r"
  shows "parse_shader_file_loop src st =
     parse_shader_file_loop src
       (st\<lparr>fs_parser := snd r,
           fs_shaders := fs_shaders st @
             [(fst r)\<lparr>uniforms := fst (pending_uniforms st) @ fst (d_uniforms d),
                      inputs := fst (pending_inputs st) @ fst (d_inputs d)\<rparr>],
           pending_uniforms := (fst (pending_uniforms st) @ fst (d_uniforms d), snd (d_uniforms d)),
           pending_inputs := (fst (pending_inputs st) @ fst (d_inputs d), snd (d_inputs d))\<rparr>) \<and>
     (parse_shader_file_loop src st = Inr st' \<longrightarrow>
        prefix
          (fs_shaders st @
             [(fst r)\<lparr>uniforms := fst (pending_uniforms st) @ fst (d_uniforms d),
                      inputs := fst (pending_inputs st) @ fst (d_inputs d)\<rparr>])
          (fs_shaders st'))"
proof -
  let ?pu = "(fst (pending_uniforms st) @ fst (d_uniforms d), snd (d_uniforms d))"
  let ?pin = "(fst (pending_inputs st) @ fst (d_inputs d), snd (d_inputs d))"
  let ?s = "(fst r)\<lparr>uniforms := fst (pending_uniforms st) @ fst (d_uniforms d),
                      inputs := fst (pending_inputs st) @ fst (d_inputs d)\<rparr>"
  let ?st1 = "st\<lparr>fs_parser := d_parser d, pending_uniforms := ?pu, pending_inputs := ?pin\<rparr>"
  let ?st2 = "st\<lparr>fs_parser := snd r, fs_shaders := fs_shaders st @ [?s],
                 pending_uniforms := ?pu, pending_inputs := ?pin\<rparr>"
  have pu: "pending_uniforms st = (fst (pending_uniforms st) @ fst (empty_list :: FXUniform linked), snd (empty_list :: FXUniform linked))"
    using assms(1) by (simp add: empty_list_def prod_eq_iff)
  have pin: "pending_inputs st = (fst (pending_inputs st) @ fst (empty_list :: FXInput linked), snd (empty_list :: FXInput linked))"
    using assms(2) by (simp add: empty_list_def prod_eq_iff)
  have a: "parse_shader_file_loop src st = parse_shader_file_loop src ?st1"
    using file_loop_declarations [OF assms(3), of st "fst (pending_uniforms st)" "fst (pending_inputs st)"]
      pu pin by simp
  have cur: "tok_type (current (fs_parser ?st1)) = TOKEN_VERTEX_SHADER \<or>
      tok_type (current (fs_parser ?st1)) = TOKEN_FRAGMENT_SHADER"
    using assms(4) by simp
  have blk: "parse_standalone_shader src (fs_parser ?st1) = Inr r"
    using assms(5) by simp
  have step: "top_level_item src ?st1 = Inr ?st2"
    using top_level_block [OF cur blk] by simp
  have ne: "tok_type (current (fs_parser ?st1)) \<noteq> TOKEN_EOF"
    using cur by auto
  have b: "parse_shader_file_loop src ?st1 = parse_shader_file_loop src ?st2"
    using ne step by (subst parse_shader_file_loop.simps) simp
  from a b have c: "parse_shader_file_loop src st = parse_shader_file_loop src ?st2"
    by simp
  have "prefix (fs_shaders st @ [?s]) (fs_shaders st')" if "parse_shader_file_loop src st = Inr st'"
    using parse_shader_file_loop_shaders [of src ?st2 st'] that c by simp
  with c show ?thesis by blast
qed

theorem standalone_shader_declarations_witness:
  "standalone_declarations local_source
     \<lparr>d_parser = fs_parser local_file_state, d_uniforms = empty_list, d_inputs = empty_list\<rparr> =
     Inr local_fragment_declarations \<and>
   parse_standalone_shader local_source (d_parser local_fragment_declarations) =
     Inr (modern_fragment_local, local_at_end) \<and>
   parse_shader_file_loop local_source local_start =
     parse_shader_file_loop local_source local_file_state \<and>
   parse_shader_file_loop local_source local_file_state = Inr local_final_state \<and>
   prefix (fs_shaders local_file_state @ [local_fragment_shader]) (fs_shaders local_final_state) \<and>
   uniforms local_fragment_shader =
     fst (pending_uniforms local_file_state) @ fst (d_uniforms local_fragment_declarations) \<and>
   inputs local_fragment_shader =
     fst (pending_inputs local_file_state) @ fst (d_inputs local_fragment_declarations) \<and>
   parse_shader_file local_source initial_parser = Inr [local_vertex_shader, local_fragment_shader]"
proof -
  have f0: "snd (pending_uniforms local_start)" "snd (pending_inputs local_start)"
    by (simp_all add: local_start_def empty_list_def)
  have d0: "standalone_declarations local_source
      \<lparr>d_parser = fs_parser local_start, d_uniforms = empty_list, d_inputs = empty_list\<rparr> =
      Inr local_vertex_declarations"
    by code_simp
  have c0: "tok_type (current (d_parser local_vertex_declarations)) = TOKEN_VERTEX_SHADER \<or>
      tok_type (current (d_parser local_vertex_declarations)) = TOKEN_FRAGMENT_SHADER"
    by (simp add: local_vertex_declarations_def local_at_vertex_def)
  have r0: "parse_standalone_shader local_source (d_parser local_vertex_declarations) =
      Inr (\<lparr>shader_name = ''vertex'', uniforms = [], inputs = [],
             fx_functions = [local_vertex_function]\<rparr>, local_at_uniform)"
    by code_simp
  have f1: "snd (pending_uniforms local_file_state)" "snd (pending_inputs local_file_state)"
    by (simp_all add: local_file_state_def)
  have d1: "standalone_declarations local_source
      \<lparr>d_parser = fs_parser local_file_state, d_uniforms = empty_list, d_inputs = empty_list\<rparr> =
      Inr local_fragment_declarations"
    by code_simp
  have c1: "tok_type (current (d_parser local_fragment_declarations)) = TOKEN_VERTEX_SHADER \<or>
      tok_type (current (d_parser local_fragment_declarations)) = TOKEN_FRAGMENT_SHADER"
    by (simp add: local_fragment_declarations_def local_at_fragment_def)
  have r1: "parse_standalone_shader local_source (d_parser local_fragment_declarations) =
      Inr (modern_fragment_local, local_at_end)"
    by code_simp
  have fin: "parse_shader_file_loop local_source local_final_state = Inr local_final_state"
    by (subst parse_shader_file_loop.simps) (simp add: local_final_state_def local_at_end_def)
  have s0: "parse_shader_file_loop local_source local_start =
      parse_shader_file_loop local_source local_file_state"
    using standalone_shader_declarations [OF f0 d0 c0 r0, THEN conjunct1]
    by (simp add: local_start_def local_file_state_def local_vertex_declarations_def
          local_vertex_shader_def empty_list_def)
  have s1: "parse_shader_file_loop local_source local_file_state = Inr local_final_state"
    using standalone_shader_declarations [OF f1 d1 c1 r1, THEN conjunct1] fin
    by (simp add: local_file_state_def local_final_state_def local_fragment_declarations_def
          local_fragment_shader_def modern_fragment_local_def)
  have p1: "prefix (fs_shaders local_file_state @ [local_fragment_shader]) (fs_shaders local_final_state)"
    using standalone_shader_declarations [OF f1 d1 c1 r1, THEN conjunct2, of local_final_state] s1
    by (simp add: local_file_state_def local_fragment_declarations_def
          local_fragment_shader_def modern_fragment_local_def)
  have l: "uniforms local_fragment_shader =
      fst (pending_uniforms local_file_state) @ fst (d_uniforms local_fragment_declarations)"
    "inputs local_fragment_shader =
      fst (pending_inputs local_file_state) @ fst (d_inputs local_fragment_declarations)"
    by (simp_all add: local_fragment_shader_def local_file_state_def local_fragment_declarations_def)
  have st: "parser_advance local_source initial_parser = local_at_start"
    by code_simp
  have whole: "parse_shader_file local_source initial_parser =
      Inr [local_vertex_shader, local_fragment_shader]"
    using s0 s1 st
    by (simp add: parse_shader_file_def local_start_def local_final_state_def)
  from d1 r1 s0 s1 p1 l whole show ?thesis
    by blast
qed

lemma parse_standalone_shader_name:
  assumes "parse_standalone_shader src p = Inr r"
  shows "shader_name (fst r) =
     (if tok_type (current p) = TOKEN_VERTEX_SHADER then ''vertex'' else ''fragment'')"
  using assms
  by (auto simp: parse_standalone_shader_def Let_def split: sum.splits)

text \<open>
  C9 (as the driver behaves). A standalone block gives a shader definition named \<open>vertex\<close>
  for \<open>vertex_shader\<close> and \<open>fragment\<close> for \<open>fragment_shader\<close>, whatever the function in the
  block is called. When the input path and the longer of the two names fit the path
  buffer (\<open>length argv1 + 10 \<le> 255\<close>), the output path of each definition is the input
  path, an underscore and that name, every file name formed from it starts with this
  output path, and the two output paths of a vertex/fragment pair differ.
\<close>

theorem standalone_shader_names:
  assumes "parse_standalone_shader src pv = Inr rv" and "tok_type (current pv) = TOKEN_VERTEX_SHADER"
    and "parse_standalone_shader src pf = Inr rf" and "tok_type (current pf) = TOKEN_FRAGMENT_SHADER"
    and "length argv1 + 10 \<le> 255"
  shows "shader_name (fst rv) = ''vertex'' \<and> shader_name (fst rf) = ''fragment'' \<and>
     output_path argv1 (fst rv) = argv1 @ ''_vertex'' \<and>
     output_path argv1 (fst rf) = argv1 @ ''_fragment'' \<and>
     output_path argv1 (fst rv) \<noteq> output_path argv1 (fst rf) \<and>
     take (length argv1 + 7) (snprintf_256 (output_path argv1 (fst rv) @ ext)) = argv1 @ ''_vertex'' \<and>
     take (length argv1 + 9) (snprintf_256 (output_path argv1 (fst rf) @ ext)) = argv1 @ ''_fragment''"
proof -
  from parse_standalone_shader_name [OF assms(1)] assms(2)
  have nv: "shader_name (fst rv) = ''vertex''" by simp
  from parse_standalone_shader_name [OF assms(3)] assms(4)
  have nf: "shader_name (fst rf) = ''fragment''" by simp
  from assms(5) have ov: "output_path argv1 (fst rv) = argv1 @ ''_vertex''"
    by (simp add: output_path_def snprintf_256_def nv)
  from assms(5) have "output_path argv1 (fst rf) = argv1 @ ''_fragment''"
    by (simp add: output_path_def snprintf_256_def nf)
  with nv nf ov assms(5) show ?thesis
    by (simp add: snprintf_256_def min_def)
qed

theorem standalone_shader_names_witness:
  "parse_standalone_shader modern_source modern_at_vertex = Inr (modern_vertex_local, modern_at_input) \<and>
   parse_standalone_shader modern_source modern_at_fragment = Inr (modern_fragment_local, modern_at_end) \<and>
   fn_name (hd (fx_functions modern_vertex_local)) = ''main_vs'' \<and>
   shader_name modern_vertex_local = ''vertex'' \<and>
   shader_name modern_fragment_local = ''fragment'' \<and>
   output_path ''t.fx'' modern_vertex_local = ''t.fx_vertex'' \<and>
   output_path ''t.fx'' modern_fragment_local = ''t.fx_fragment'' \<and>
   snprintf_256 (output_path ''t.fx'' modern_vertex_local @ ''.vert.glsl'') = ''t.fx_vertex.vert.glsl''"
proof -
  have v: "parse_standalone_shader modern_source modern_at_vertex = Inr (modern_vertex_local, modern_at_input)"
    by code_simp
  have f: "parse_standalone_shader modern_source modern_at_fragment = Inr (modern_fragment_local, modern_at_end)"
    by code_simp
  have cv: "tok_type (current modern_at_vertex) = TOKEN_VERTEX_SHADER"
    by (simp add: modern_at_vertex_def)
  have cf: "tok_type (current modern_at_fragment) = TOKEN_FRAGMENT_SHADER"
    by (simp add: modern_at_fragment_def)
  have len: "length ''t.fx'' + 10 \<le> 255"
    by simp
  from standalone_shader_names [OF v cv f cf len, of "''.vert.glsl''"] v f show ?thesis
    by (simp add: modern_vertex_local_def modern_vertex_function_def snprintf_256_def)
qed

text \<open>
  C9 (as stated) fails for a long input path. With a path of 254 bytes the path buffer
  cuts the name off: both shader definitions of \<open>modern_source\<close> get the same output path,
  which ends in the underscore, and all four files are written to that one path.
\<close>

theorem standalone_shader_names_long_path:
  "parse_shader_file modern_source initial_parser =
     Inr [modern_vertex_shader, modern_fragment_shader] \<and>
   output_path (replicate 254 CHR ''a'') modern_vertex_shader = replicate 254 CHR ''a'' @ ''_'' \<and>
   output_path (replicate 254 CHR ''a'') modern_fragment_shader = replicate 254 CHR ''a'' @ ''_'' \<and>
   map fst (snd (fxc_main (replicate 254 CHR ''a'') (Some modern_source) all_writable)) =
     replicate 4 (replicate 254 CHR ''a'' @ ''_'')"
  by code_simp

section \<open>Properties of the body transformer\<close>







section \<open>Properties of the driver\<close>

lemma generate_glsl_texts:
  assumes "generate_glsl writable s out fs = (None, fs')"
  shows "map snd fs' = map snd fs @
     (case last_of_stage is_vertex (fx_functions s) of None \<Rightarrow> [] | Some fn \<Rightarrow> [vertex_text s fn]) @
     (case last_of_stage is_fragment (fx_functions s) of None \<Rightarrow> [] | Some fn \<Rightarrow> [fragment_text s fn])"
  using assms
  by (auto simp: generate_glsl_def find_functions_None write_file_def Let_def
        split: option.splits if_splits)

lemma generate_metadata_texts:
  assumes "generate_metadata writable s out fs = (None, fs')"
  shows "map snd fs' = map snd fs @ [metadata_text s]"
  using assms
  by (auto simp: generate_metadata_def write_file_def split: if_splits)

lemma generate_all_texts:
  "generate_all writable argv1 shaders fs = (None, fs') \<Longrightarrow>
     map snd fs' = map snd fs @ concat (map shader_texts shaders)"
proof (induction shaders arbitrary: fs)
  case Nil
  then show ?case by simp
next
  case (Cons s shaders)
  obtain e1 fs1 where g: "generate_glsl writable s (output_path argv1 s) fs = (e1, fs1)"
    by (cases "generate_glsl writable s (output_path argv1 s) fs")
  obtain e2 fs2 where m: "generate_metadata writable s (output_path argv1 s) fs1 = (e2, fs2)"
    by (cases "generate_metadata writable s (output_path argv1 s) fs1")
  from Cons.prems g m have e1: "e1 = None" and e2: "e2 = None"
    and rest: "generate_all writable argv1 shaders fs2 = (None, fs')"
    by (auto simp: Let_def split: if_splits)
  from generate_glsl_texts [OF g [unfolded e1]] generate_metadata_texts [OF m [unfolded e2]]
    Cons.IH [OF rest]
  show ?case
    by (simp add: shader_texts_def)
qed

lemma generate_glsl_all_writable:
  assumes "\<forall>path. writable path"
  shows "generate_glsl writable s out fs =
     (None,
      fs @
      (case last_of_stage is_vertex (fx_functions s) of
         None \<Rightarrow> []
       | Some fn \<Rightarrow> [(snprintf_256 (out @ ''.vert.glsl''), vertex_text s fn)]) @
      (case last_of_stage is_fragment (fx_functions s) of
         None \<Rightarrow> []
       | Some fn \<Rightarrow> [(snprintf_256 (out @ ''.frag.glsl''), fragment_text s fn)]))"
  using assms
  by (simp add: generate_glsl_def find_functions_None write_file_def Let_def split: option.splits)

lemma generate_all_all_writable:
  assumes "\<forall>path. writable path"
  shows "generate_all writable argv1 shaders fs = (None, fs @ concat (map (shader_files argv1) shaders))"
proof (induction shaders arbitrary: fs)
  case Nil
  show ?case by simp
next
  case (Cons s shaders)
  have m: "generate_metadata writable s (output_path argv1 s) fs1 =
      (None, fs1 @ [(snprintf_256 (output_path argv1 s @ ''.meta''), metadata_text s)])" for fs1
    using assms by (simp add: generate_metadata_def write_file_def)
  show ?case
    by (simp add: Cons.IH generate_glsl_all_writable [OF assms] m shader_files_def Let_def)
qed

lemma last_of_stage_None:
  "list_all (\<lambda>fn. \<not> stage fn) fns \<Longrightarrow> last_of_stage stage fns = None"
  by (simp add: last_of_stage_def list_all_iff filter_empty_conv split: list.splits)

lemma generate_glsl_keeps:
  "set fs \<subseteq> set (snd (generate_glsl writable s out fs))"
  by (auto simp: generate_glsl_def write_file_def Let_def split: option.splits)

lemma generate_all_keeps:
  "set fs \<subseteq> set (snd (generate_all writable argv1 shaders fs))"
proof (induction shaders arbitrary: fs)
  case Nil
  show ?case by simp
next
  case (Cons s shaders)
  let ?fs1 = "snd (generate_glsl writable s (output_path argv1 s) fs)"
  let ?fs2 = "snd (generate_metadata writable s (output_path argv1 s) ?fs1)"
  have 1: "set fs \<subseteq> set ?fs1"
    by (rule generate_glsl_keeps)
  have 2: "set ?fs1 \<subseteq> set ?fs2"
    by (auto simp: generate_metadata_def write_file_def)
  from Cons.IH [of ?fs2] have 3: "set ?fs2 \<subseteq> set (snd (generate_all writable argv1 shaders ?fs2))" .
  from 1 2 3 show ?case
    by (auto simp: Let_def)
qed

lemma generate_all_metadata:
  "generate_all writable argv1 shaders fs = (None, fs') \<Longrightarrow> s \<in> set shaders \<Longrightarrow>
     (snprintf_256 (output_path argv1 s @ ''.meta''), metadata_text s) \<in> set fs'"
proof (induction shaders arbitrary: fs)
  case Nil
  then show ?case by simp
next
  case (Cons t shaders)
  let ?fs1 = "snd (generate_glsl writable t (output_path argv1 t) fs)"
  let ?fs2 = "snd (generate_metadata writable t (output_path argv1 t) ?fs1)"
  from Cons.prems(1) have g: "fst (generate_glsl writable t (output_path argv1 t) fs) = None"
    and m: "fst (generate_metadata writable t (output_path argv1 t) ?fs1) = None"
    and rest: "generate_all writable argv1 shaders ?fs2 = (None, fs')"
    by (auto simp: Let_def split: if_splits)
  show ?case
  proof (cases "s = t")
    case True
    from m have "(snprintf_256 (output_path argv1 t @ ''.meta''), metadata_text t) \<in> set ?fs2"
      by (auto simp: generate_metadata_def write_file_def split: if_splits)
    moreover have "set ?fs2 \<subseteq> set (snd (generate_all writable argv1 shaders ?fs2))"
      by (rule generate_all_keeps)
    ultimately show ?thesis
      using rest True by auto
  next
    case False
    with Cons.prems(2) have "s \<in> set shaders" by simp
    from Cons.IH [OF rest this] show ?thesis .
  qed
qed

lemma generate_glsl_prefix:
  "prefix (map snd (snd (generate_glsl writable s out fs)))
     (map snd fs @
      (case last_of_stage is_vertex (fx_functions s) of None \<Rightarrow> [] | Some fn \<Rightarrow> [vertex_text s fn]) @
      (case last_of_stage is_fragment (fx_functions s) of None \<Rightarrow> [] | Some fn \<Rightarrow> [fragment_text s fn]))"
  by (auto simp: generate_glsl_def find_functions_None write_file_def Let_def
        split: option.splits)

lemma generate_all_prefix:
  "prefix (map snd (snd (generate_all writable argv1 shaders fs)))
     (map snd fs @ concat (map shader_texts shaders))"
proof (induction shaders arbitrary: fs)
  case Nil
  show ?case by simp
next
  case (Cons s shaders)
  obtain e1 fs1 where g: "generate_glsl writable s (output_path argv1 s) fs = (e1, fs1)"
    by (cases "generate_glsl writable s (output_path argv1 s) fs")
  obtain e2 fs2 where m: "generate_metadata writable s (output_path argv1 s) fs1 = (e2, fs2)"
    by (cases "generate_metadata writable s (output_path argv1 s) fs1")
  let ?glsl = "(case last_of_stage is_vertex (fx_functions s) of None \<Rightarrow> [] | Some fn \<Rightarrow> [vertex_text s fn]) @
      (case last_of_stage is_fragment (fx_functions s) of None \<Rightarrow> [] | Some fn \<Rightarrow> [fragment_text s fn])"
  have all: "map snd fs @ concat (map shader_texts (s # shaders)) =
      (map snd fs @ ?glsl) @ [metadata_text s] @ concat (map shader_texts shaders)"
    by (simp add: shader_texts_def)
  show ?case
  proof (cases "e1 = None")
    case False
    from generate_glsl_prefix [of writable s "output_path argv1 s" fs] g
    have "prefix (map snd fs1) (map snd fs @ ?glsl)"
      by simp
    then have "prefix (map snd fs1) (map snd fs @ concat (map shader_texts (s # shaders)))"
      unfolding all by (rule prefix_prefix)
    with False g show ?thesis
      by (simp add: Let_def)
  next
    case e1: True
    from generate_glsl_texts [OF g [unfolded e1]]
    have t1: "map snd fs1 = map snd fs @ ?glsl"
      by simp
    show ?thesis
    proof (cases "e2 = None")
      case False
      with m have "fs2 = fs1"
        by (auto simp: generate_metadata_def write_file_def split: if_splits)
      with t1 have "prefix (map snd fs2) (map snd fs @ concat (map shader_texts (s # shaders)))"
        unfolding all by simp
      with False e1 g m show ?thesis
        by (simp add: Let_def)
    next
      case e2: True
      from generate_metadata_texts [OF m [unfolded e2]] t1
      have "map snd fs2 @ concat (map shader_texts shaders) =
          map snd fs @ concat (map shader_texts (s # shaders))"
        by (simp add: shader_texts_def)
      with Cons.IH [of fs2] e1 e2 g m show ?thesis
        by (simp add: Let_def)
    qed
  qed
qed

lemma generate_glsl_status:
  "fst (generate_glsl writable s out fs) = None \<or> fst (generate_glsl writable s out fs) = Some Exit1"
  by (auto simp: generate_glsl_def write_file_def Let_def split: option.splits)

lemma generate_all_status:
  "fst (generate_all writable argv1 shaders fs) = None \<or>
   fst (generate_all writable argv1 shaders fs) = Some Exit1"
proof (induction shaders arbitrary: fs)
  case Nil
  show ?case by simp
next
  case (Cons s shaders)
  have m: "fst (generate_metadata writable s out fs1) = None \<or>
      fst (generate_metadata writable s out fs1) = Some Exit1" for out fs1
    by (simp add: generate_metadata_def write_file_def)
  from Cons.IH generate_glsl_status [of writable s "output_path argv1 s" fs] m show ?case
    by (auto simp: Let_def)
qed

lemma fxc_main_parsed:
  assumes "parse_shader_file (takeWhile (\<lambda>c. c \<noteq> NUL) bytes) initial_parser = Inr shaders"
    and "shaders \<noteq> []"
  shows "snd (fxc_main argv1 (Some bytes) writable) = snd (generate_all writable argv1 shaders [])"
    and "fst (fxc_main argv1 (Some bytes) writable) =
      (if fst (generate_all writable argv1 shaders []) = None then cleanup_all shaders []
       else Some Exit1)"
  using assms generate_all_status [of writable argv1 shaders "[]"]
  by (auto simp: fxc_main_def Let_def)

lemma fxc_main_unparsed:
  assumes "\<And>shaders. parse_shader_file (takeWhile (\<lambda>c. c \<noteq> NUL) bytes) initial_parser = Inr shaders \<Longrightarrow>
     shaders = []"
  shows "fxc_main argv1 (Some bytes) writable = fxc_main argv1' (Some bytes) writable' \<and>
     snd (fxc_main argv1 (Some bytes) writable) = []"
  using assms
  by (auto simp: fxc_main_def Let_def split: sum.splits)

lemma free_strings_status: "free_strings b freed = Inl e \<Longrightarrow> e = Invalid_free"
  by (simp add: free_strings_def split: if_splits)

lemma cleanup_uniforms_status: "cleanup_uniforms us freed = Inl e \<Longrightarrow> e = Invalid_free"
  by (induction us arbitrary: freed) (auto split: sum.splits dest: free_strings_status)

lemma cleanup_inputs_status: "cleanup_inputs ins freed = Inl e \<Longrightarrow> e = Invalid_free"
  by (induction ins arbitrary: freed) (auto split: sum.splits dest: free_strings_status)

lemma cleanup_statements_status: "cleanup_statements stmts = Some e \<Longrightarrow> e = Invalid_free"
  by (induction stmts) (auto split: if_splits)

lemma cleanup_functions_status: "cleanup_functions fns = Some e \<Longrightarrow> e = Invalid_free"
  by (induction fns) (auto split: option.splits dest: cleanup_statements_status)

lemma cleanup_shader_status: "cleanup_shader s freed = Inl e \<Longrightarrow> e = Invalid_free"
  by (auto simp: cleanup_shader_def split: sum.splits option.splits
        dest: cleanup_uniforms_status cleanup_inputs_status cleanup_functions_status)

lemma cleanup_all_status: "cleanup_all shaders freed = Some e \<Longrightarrow> e = Invalid_free"
  by (induction shaders arbitrary: freed) (auto split: sum.splits dest: cleanup_shader_status)

text \<open>
  C8. Two runs on the same bytes, under whatever input paths and with whatever output
  files writable. The texts written by one of the runs are an initial segment of the
  texts written by the other, in the same order. When neither run is stopped by an output
  file that cannot be opened, and in particular when every output file can be opened in
  both, the two runs write the same texts and end in the same way. This covers the runs
  that are stopped in the clean-up, which have written and closed all their files.
\<close>

theorem fxc_main_deterministic:
  "(prefix (map snd (snd (fxc_main argv1 (Some bytes) writable)))
           (map snd (snd (fxc_main argv1' (Some bytes) writable'))) \<or>
    prefix (map snd (snd (fxc_main argv1' (Some bytes) writable')))
           (map snd (snd (fxc_main argv1 (Some bytes) writable)))) \<and>
   (fst (fxc_main argv1 (Some bytes) writable) \<noteq> Some Exit1 \<and>
    fst (fxc_main argv1' (Some bytes) writable') \<noteq> Some Exit1 \<longrightarrow>
      map snd (snd (fxc_main argv1 (Some bytes) writable)) =
      map snd (snd (fxc_main argv1' (Some bytes) writable')) \<and>
      fst (fxc_main argv1 (Some bytes) writable) = fst (fxc_main argv1' (Some bytes) writable')) \<and>
   ((\<forall>path. writable path) \<and> (\<forall>path. writable' path) \<longrightarrow>
      map snd (snd (fxc_main argv1 (Some bytes) writable)) =
      map snd (snd (fxc_main argv1' (Some bytes) writable')) \<and>
      fst (fxc_main argv1 (Some bytes) writable) = fst (fxc_main argv1' (Some bytes) writable'))"
proof (cases "\<exists>shaders. parse_shader_file (takeWhile (\<lambda>c. c \<noteq> NUL) bytes) initial_parser = Inr shaders \<and>
    shaders \<noteq> []")
  case False
  then have n: "parse_shader_file (takeWhile (\<lambda>c. c \<noteq> NUL) bytes) initial_parser = Inr shaders \<Longrightarrow>
      shaders = []" for shaders
    by blast
  have "fxc_main argv1 (Some bytes) writable = fxc_main argv1' (Some bytes) writable' \<and>
     snd (fxc_main argv1 (Some bytes) writable) = []"
    by (rule fxc_main_unparsed [OF n])
  then show ?thesis
    by simp
next
  case True
  then obtain shaders
    where p: "parse_shader_file (takeWhile (\<lambda>c. c \<noteq> NUL) bytes) initial_parser = Inr shaders"
      and ne: "shaders \<noteq> []"
    by blast
  let ?g = "generate_all writable argv1 shaders []"
  let ?g' = "generate_all writable' argv1' shaders []"
  note r = fxc_main_parsed [OF p ne, of argv1 writable]
  note r' = fxc_main_parsed [OF p ne, of argv1' writable']
  have full: "map snd (snd (generate_all w a shaders [])) = concat (map shader_texts shaders)"
    if "fst (generate_all w a shaders []) = None" for w a
  proof -
    from that have "generate_all w a shaders [] = (None, snd (generate_all w a shaders []))"
      by (metis prod.collapse)
    from generate_all_texts [OF this] show ?thesis
      by simp
  qed
  have 1: "prefix (map snd (snd ?g)) (map snd (snd ?g')) \<or> prefix (map snd (snd ?g')) (map snd (snd ?g))"
  proof -
    have a: "prefix (map snd (snd ?g)) (concat (map shader_texts shaders))"
      using generate_all_prefix [of writable argv1 shaders "[]"] by simp
    have b: "prefix (map snd (snd ?g')) (concat (map shader_texts shaders))"
      using generate_all_prefix [of writable' argv1' shaders "[]"] by simp
    from a b show ?thesis
      by (rule prefix_same_cases)
  qed
  have 2: "map snd (snd (fxc_main argv1 (Some bytes) writable)) =
      map snd (snd (fxc_main argv1' (Some bytes) writable')) \<and>
      fst (fxc_main argv1 (Some bytes) writable) = fst (fxc_main argv1' (Some bytes) writable')"
    if "fst ?g = None" and "fst ?g' = None"
    using that full [OF that(1)] full [OF that(2)] r r' by simp
  have 3: "fst ?g = None" if "fst (fxc_main argv1 (Some bytes) writable) \<noteq> Some Exit1"
    using that r(2) by (simp split: if_splits)
  have 4: "fst ?g' = None" if "fst (fxc_main argv1' (Some bytes) writable') \<noteq> Some Exit1"
    using that r'(2) by (simp split: if_splits)
  have 5: "fst (generate_all w a shaders []) = None" if "\<forall>path. w path" for w a
    using generate_all_all_writable [OF that, of a shaders "[]"] by simp
  have a: "prefix (map snd (snd (fxc_main argv1 (Some bytes) writable)))
           (map snd (snd (fxc_main argv1' (Some bytes) writable'))) \<or>
    prefix (map snd (snd (fxc_main argv1' (Some bytes) writable')))
           (map snd (snd (fxc_main argv1 (Some bytes) writable)))"
    using 1 by (simp add: r(1) r'(1))
  have b: "fst (fxc_main argv1 (Some bytes) writable) \<noteq> Some Exit1 \<and>
    fst (fxc_main argv1' (Some bytes) writable') \<noteq> Some Exit1 \<longrightarrow>
      map snd (snd (fxc_main argv1 (Some bytes) writable)) =
      map snd (snd (fxc_main argv1' (Some bytes) writable')) \<and>
      fst (fxc_main argv1 (Some bytes) writable) = fst (fxc_main argv1' (Some bytes) writable')"
  proof
    assume "fst (fxc_main argv1 (Some bytes) writable) \<noteq> Some Exit1 \<and>
      fst (fxc_main argv1' (Some bytes) writable') \<noteq> Some Exit1"
    then have "fst ?g = None" and "fst ?g' = None"
      using 3 4 by simp_all
    then show "map snd (snd (fxc_main argv1 (Some bytes) writable)) =
      map snd (snd (fxc_main argv1' (Some bytes) writable')) \<and>
      fst (fxc_main argv1 (Some bytes) writable) = fst (fxc_main argv1' (Some bytes) writable')"
      by (rule 2)
  qed
  have c: "(\<forall>path. writable path) \<and> (\<forall>path. writable' path) \<longrightarrow>
      map snd (snd (fxc_main argv1 (Some bytes) writable)) =
      map snd (snd (fxc_main argv1' (Some bytes) writable')) \<and>
      fst (fxc_main argv1 (Some bytes) writable) = fst (fxc_main argv1' (Some bytes) writable')"
  proof
    assume w: "(\<forall>path. writable path) \<and> (\<forall>path. writable' path)"
    from w have "fst ?g = None"
      by (intro 5) simp
    moreover from w have "fst ?g' = None"
      by (intro 5) simp
    ultimately show "map snd (snd (fxc_main argv1 (Some bytes) writable)) =
      map snd (snd (fxc_main argv1' (Some bytes) writable')) \<and>
      fst (fxc_main argv1 (Some bytes) writable) = fst (fxc_main argv1' (Some bytes) writable')"
      by (rule 2)
  qed
  from a b c show ?thesis
    by (intro conjI)
qed

theorem fxc_main_deterministic_witness:
  "fst (fxc_main ''a.fx'' (Some modern_source) all_writable) = Some Invalid_free \<and>
   fst (fxc_main ''b/c.fx'' (Some modern_source) all_writable) = Some Invalid_free \<and>
   map snd (snd (fxc_main ''a.fx'' (Some modern_source) all_writable)) =
   map snd (snd (fxc_main ''b/c.fx'' (Some modern_source) all_writable)) \<and>
   map fst (snd (fxc_main ''a.fx'' (Some modern_source) all_writable)) =
     [''a.fx_vertex.vert.glsl'', ''a.fx_vertex.meta'', ''a.fx_fragment.frag.glsl'', ''a.fx_fragment.meta''] \<and>
   map fst (snd (fxc_main ''b/c.fx'' (Some modern_source) all_writable)) =
     [''b/c.fx_vertex.vert.glsl'', ''b/c.fx_vertex.meta'', ''b/c.fx_fragment.frag.glsl'',
      ''b/c.fx_fragment.meta''] \<and>
   fst (fxc_main ''a.fx'' (Some modern_source) no_fragment_file) = Some Exit1 \<and>
   map fst (snd (fxc_main ''a.fx'' (Some modern_source) no_fragment_file)) =
     [''a.fx_vertex.vert.glsl'', ''a.fx_vertex.meta''] \<and>
   prefix (map snd (snd (fxc_main ''a.fx'' (Some modern_source) no_fragment_file)))
     (map snd (snd (fxc_main ''b/c.fx'' (Some modern_source) all_writable)))"
proof -
  have a: "fst (fxc_main ''a.fx'' (Some modern_source) all_writable) = Some Invalid_free"
    by code_simp
  have b: "fst (fxc_main ''b/c.fx'' (Some modern_source) all_writable) = Some Invalid_free"
    by code_simp
  have c: "fst (fxc_main ''a.fx'' (Some modern_source) no_fragment_file) = Some Exit1"
    by code_simp
  have n: "map fst (snd (fxc_main ''a.fx'' (Some modern_source) all_writable)) =
     [''a.fx_vertex.vert.glsl'', ''a.fx_vertex.meta'', ''a.fx_fragment.frag.glsl'', ''a.fx_fragment.meta'']"
    by code_simp
  have n': "map fst (snd (fxc_main ''b/c.fx'' (Some modern_source) all_writable)) =
     [''b/c.fx_vertex.vert.glsl'', ''b/c.fx_vertex.meta'', ''b/c.fx_fragment.frag.glsl'',
      ''b/c.fx_fragment.meta'']"
    by code_simp
  have n'': "map fst (snd (fxc_main ''a.fx'' (Some modern_source) no_fragment_file)) =
     [''a.fx_vertex.vert.glsl'', ''a.fx_vertex.meta'']"
    by code_simp
  have w: "\<forall>path. all_writable path"
    by (simp add: all_writable_def)
  from a b have x: "fst (fxc_main ''a.fx'' (Some modern_source) all_writable) \<noteq> Some Exit1"
    "fst (fxc_main ''b/c.fx'' (Some modern_source) all_writable) \<noteq> Some Exit1"
    by simp_all
  from fxc_main_deterministic [of "''a.fx''" modern_source all_writable "''b/c.fx''" all_writable] w x
  have e: "map snd (snd (fxc_main ''a.fx'' (Some modern_source) all_writable)) =
      map snd (snd (fxc_main ''b/c.fx'' (Some modern_source) all_writable))"
    by blast
  have "length (map snd (snd (fxc_main ''b/c.fx'' (Some modern_source) all_writable))) =
      length (map fst (snd (fxc_main ''b/c.fx'' (Some modern_source) all_writable)))"
    by simp
  also have "\<dots> = 4"
    unfolding n' by simp
  finally have l: "length (map snd (snd (fxc_main ''b/c.fx'' (Some modern_source) all_writable))) = 4" .
  have "length (map snd (snd (fxc_main ''a.fx'' (Some modern_source) no_fragment_file))) =
      length (map fst (snd (fxc_main ''a.fx'' (Some modern_source) no_fragment_file)))"
    by simp
  also have "\<dots> = 2"
    unfolding n'' by simp
  finally have l': "length (map snd (snd (fxc_main ''a.fx'' (Some modern_source) no_fragment_file))) = 2" .
  have "\<not> prefix (map snd (snd (fxc_main ''b/c.fx'' (Some modern_source) all_writable)))
      (map snd (snd (fxc_main ''a.fx'' (Some modern_source) no_fragment_file)))"
    using l l' by (auto dest: prefix_length_le)
  with fxc_main_deterministic [of "''a.fx''" modern_source no_fragment_file "''b/c.fx''" all_writable]
  have p: "prefix (map snd (snd (fxc_main ''a.fx'' (Some modern_source) no_fragment_file)))
      (map snd (snd (fxc_main ''b/c.fx'' (Some modern_source) all_writable)))"
    by blast
  from a b c e n n' n'' p show ?thesis
    by (intro conjI)
qed

text \<open>
  C10. For every shader definition of a file that parses: in a run that is not stopped by
  an output file that cannot be opened, the files written contain the definition's
  \<open>.meta\<close> path with its manifest text, and a run in which every output file can be opened
  is such a run. The run may still be stopped in the clean-up, after the manifests have
  been written and closed. This holds also for a definition without any function tagged
  Vertex or Fragment; for such a definition \<open>generate_glsl\<close> writes no file and
  \<open>generate_metadata\<close> writes the manifest as soon as its file can be opened.
\<close>

theorem metadata_always_written:
  assumes "parse_shader_file (takeWhile (\<lambda>c. c \<noteq> NUL) bytes) initial_parser = Inr shaders"
    and "s \<in> set shaders"
  shows "(fst (fxc_main argv1 (Some bytes) writable) \<noteq> Some Exit1 \<longrightarrow>
        (snprintf_256 (output_path argv1 s @ ''.meta''), metadata_text s)
          \<in> set (snd (fxc_main argv1 (Some bytes) writable))) \<and>
     ((\<forall>path. writable path) \<longrightarrow>
        fst (fxc_main argv1 (Some bytes) writable) \<noteq> Some Exit1 \<and>
        (snprintf_256 (output_path argv1 s @ ''.meta''), metadata_text s)
          \<in> set (snd (fxc_main argv1 (Some bytes) writable))) \<and>
     (list_all (\<lambda>fn. \<not> is_vertex fn) (fx_functions s) \<and>
      list_all (\<lambda>fn. \<not> is_fragment fn) (fx_functions s) \<longrightarrow>
        generate_glsl writable s (output_path argv1 s) fs = (None, fs) \<and>
        generate_metadata writable s (output_path argv1 s) fs =
          (if writable (snprintf_256 (output_path argv1 s @ ''.meta''))
           then (None, fs @ [(snprintf_256 (output_path argv1 s @ ''.meta''), metadata_text s)])
           else (Some Exit1, fs)))"
proof -
  from assms(2) have ne: "shaders \<noteq> []" by auto
  note run = fxc_main_parsed [OF assms(1) ne, of argv1 writable]
  have 1: "(snprintf_256 (output_path argv1 s @ ''.meta''), metadata_text s)
      \<in> set (snd (fxc_main argv1 (Some bytes) writable))"
    if "fst (fxc_main argv1 (Some bytes) writable) \<noteq> Some Exit1"
  proof -
    from that run(2) have "fst (generate_all writable argv1 shaders []) = None"
      by (simp split: if_splits)
    then have "generate_all writable argv1 shaders [] =
        (None, snd (generate_all writable argv1 shaders []))"
      by (metis prod.collapse)
    from generate_all_metadata [OF this assms(2)] run(1) show ?thesis
      by simp
  qed
  have 2: "fst (fxc_main argv1 (Some bytes) writable) \<noteq> Some Exit1" if "\<forall>path. writable path"
  proof -
    from generate_all_all_writable [OF that, of argv1 shaders "[]"] run(2)
    have "fst (fxc_main argv1 (Some bytes) writable) = cleanup_all shaders []"
      by simp
    with cleanup_all_status [of shaders "[]" Exit1] show ?thesis
      by auto
  qed
  have 3: "generate_glsl writable s (output_path argv1 s) fs = (None, fs)"
    if "list_all (\<lambda>fn. \<not> is_vertex fn) (fx_functions s)"
      and "list_all (\<lambda>fn. \<not> is_fragment fn) (fx_functions s)"
    using that
    by (simp add: generate_glsl_def find_functions_None last_of_stage_None)
  have 4: "generate_metadata writable s (output_path argv1 s) fs =
      (if writable (snprintf_256 (output_path argv1 s @ ''.meta''))
       then (None, fs @ [(snprintf_256 (output_path argv1 s @ ''.meta''), metadata_text s)])
       else (Some Exit1, fs))"
    by (simp add: generate_metadata_def write_file_def)
  from 1 2 3 4 show ?thesis by blast
qed

theorem metadata_always_written_witness:
  "parse_shader_file (takeWhile (\<lambda>c. c \<noteq> NUL) helper_source) initial_parser = Inr [helper_shader] \<and>
   list_all (\<lambda>fn. \<not> is_vertex fn) (fx_functions helper_shader) \<and>
   list_all (\<lambda>fn. \<not> is_fragment fn) (fx_functions helper_shader) \<and>
   fxc_main ''t.fx'' (Some helper_source) all_writable =
     (Some Invalid_free,
      [(''t.fx_{.meta'',
        ''shader {'' @ NL @ ''uniforms 0'' @ NL @ ''uniform vec3 c'' @ NL @ ''inputs 0'' @ NL)]) \<and>
   (snprintf_256 (output_path ''t.fx'' helper_shader @ ''.meta''), metadata_text helper_shader)
     \<in> set (snd (fxc_main ''t.fx'' (Some helper_source) all_writable)) \<and>
   generate_glsl all_writable helper_shader (output_path ''t.fx'' helper_shader) [] = (None, [])"
proof -
  have w: "\<forall>path. all_writable path"
    by (simp add: all_writable_def)
  have p: "parse_shader_file (takeWhile (\<lambda>c. c \<noteq> NUL) helper_source) initial_parser = Inr [helper_shader]"
    by code_simp
  have m: "helper_shader \<in> set [helper_shader]"
    by simp
  have nv: "list_all (\<lambda>fn. \<not> is_vertex fn) (fx_functions helper_shader)"
    and nf: "list_all (\<lambda>fn. \<not> is_fragment fn) (fx_functions helper_shader)"
    by (simp_all add: helper_shader_def)
  have run: "fxc_main ''t.fx'' (Some helper_source) all_writable =
     (Some Invalid_free,
      [(''t.fx_{.meta'',
        ''shader {'' @ NL @ ''uniforms 0'' @ NL @ ''uniform vec3 c'' @ NL @ ''inputs 0'' @ NL)])"
    by code_simp
  from run have ok: "fst (fxc_main ''t.fx'' (Some helper_source) all_writable) \<noteq> Some Exit1"
    by simp
  from metadata_always_written [OF p m, of "''t.fx''" all_writable "[]"] w nv nf ok
  have "(snprintf_256 (output_path ''t.fx'' helper_shader @ ''.meta''), metadata_text helper_shader)
     \<in> set (snd (fxc_main ''t.fx'' (Some helper_source) all_writable))"
    and "generate_glsl all_writable helper_shader (output_path ''t.fx'' helper_shader) [] = (None, [])"
    by blast+
  with p nv nf run show ?thesis
    by blast
qed

end
